theory Spec2Isabelle
  imports Main "HOL-Library.AList" "HOL-Library.Char_ord" "HOL-Library.List_Lexorder"
begin

section \<open>hugo-update-lastmod: a shallow embedding of bin/hugo-update-lastmod.mjs\<close>

text \<open>
  The source file holds three generations of the script. The timestamp generation
  (cache version 2, fingerprint \<open>mtimeMs\<close>) and the hash generation (cache version 3,
  fingerprint \<open>hash\<close>) share \<open>diffImages\<close>, \<open>parseFrontmatter\<close>, \<open>buildNewContent\<close>,
  \<open>formatLocalISO\<close> and \<open>isNewerISO\<close> word for word; they differ in \<open>processBundle\<close>
  and in the last step of \<open>main\<close>.

  A JavaScript string is modelled as a \<open>string\<close> whose characters stand for code units
  below 256. Paths are kept in their form relative to the working directory, so
  \<open>path.resolve\<close> and \<open>path.relative(process.cwd(), _)\<close> are identities.
  Console output is not modelled.
\<close>

subsection \<open>String primitives of the platform\<close>

definition NL :: char where
  "NL = CHR 0x0A"

definition DQ :: char where
  "DQ = CHR 0x22"

text \<open>White space as \<open>String.prototype.trim\<close> and the regular expression class
  \<open>\s\<close> see it, restricted to code units below 256.\<close>

definition isSpace :: "char \<Rightarrow> bool" where
  "isSpace c \<longleftrightarrow>
     c = CHR 0x09 \<or> c = CHR 0x0A \<or> c = CHR 0x0B \<or> c = CHR 0x0C \<or> c = CHR 0x0D \<or>
     c = CHR 0x20 \<or> c = CHR 0xA0"

definition trim :: "string \<Rightarrow> string" where
  "trim s = rev (dropWhile isSpace (rev (dropWhile isSpace s)))"

definition startsWith :: "string \<Rightarrow> string \<Rightarrow> bool" where
  "startsWith s p \<longleftrightarrow> take (length p) s = p"

definition endsWith :: "string \<Rightarrow> string \<Rightarrow> bool" where
  "endsWith s p \<longleftrightarrow> length p \<le> length s \<and> drop (length s - length p) s = p"

text \<open>\<open>s.split("\n")\<close>: never empty, the empty string gives one empty line.\<close>

fun split_nl :: "string \<Rightarrow> string list" where
  "split_nl [] = [[]]"
| "split_nl (c # cs) =
     (if c = NL then [] # split_nl cs
      else (case split_nl cs of [] \<Rightarrow> [[c]] | l # ls \<Rightarrow> (c # l) # ls))"

text \<open>\<open>lines.join("\n")\<close>: the empty array gives the empty string.\<close>

fun join_nl :: "string list \<Rightarrow> string" where
  "join_nl [] = []"
| "join_nl [l] = l"
| "join_nl (l # m # ls) = l @ NL # join_nl (m # ls)"

text \<open>\<open>xs.slice(a, b)\<close> and \<open>xs.slice(a)\<close> for indices that are not negative.\<close>

definition slice :: "'a list \<Rightarrow> nat \<Rightarrow> nat \<Rightarrow> 'a list" where
  "slice xs a b = take (b - a) (drop a xs)"

definition slice_from :: "'a list \<Rightarrow> nat \<Rightarrow> 'a list" where
  "slice_from xs a = drop a xs"

subsection \<open>Descriptor editor: \<open>parseFrontmatter\<close> and \<open>buildNewContent\<close>\<close>

record parsed =
  currentLastmod :: string
  fmLines :: "string list"
  bodyLines :: "string list"
  valid :: bool

text \<open>\<open>lines.map((line, i) => (line.trim() === FRONTMATTER_DELIM ? i : -1))
  .filter((i) => i !== -1)\<close>\<close>

definition fmIdx :: "string \<Rightarrow> string list \<Rightarrow> int list" where
  "fmIdx delim lines =
     filter (\<lambda>i. i \<noteq> - 1)
       (map (\<lambda>(i, line). if trim line = delim then int i else - 1) (enumerate 0 lines))"

text \<open>\<open>line.replace(/^lastmod:\s*/, "").replace(/"/g, "").trim()\<close>\<close>

definition stripLastmodPrefix :: "string \<Rightarrow> string" where
  "stripLastmodPrefix line =
     (if startsWith line ''lastmod:'' then dropWhile isSpace (drop 8 line) else line)"

definition removeQuotes :: "string \<Rightarrow> string" where
  "removeQuotes s = filter (\<lambda>c. c \<noteq> DQ) s"

text \<open>The loop over \<open>fmLines\<close> that stops at the first line starting with \<open>lastmod:\<close>.\<close>

fun findLastmod :: "string list \<Rightarrow> string" where
  "findLastmod [] = []"
| "findLastmod (line # rest) =
     (if startsWith line ''lastmod:''
      then trim (removeQuotes (stripLastmodPrefix line))
      else findLastmod rest)"

definition parseFrontmatter :: "string \<Rightarrow> string \<Rightarrow> parsed" where
  "parseFrontmatter delim content =
     (let lines = split_nl content;
          idx = fmIdx delim lines
      in if length idx < 2 \<or> idx ! 1 \<le> idx ! 0
         then \<lparr>currentLastmod = [], fmLines = [], bodyLines = lines, valid = False\<rparr>
         else
           let fmStart = nat (idx ! 0);
               fmEnd = nat (idx ! 1);
               fm = slice lines (fmStart + 1) fmEnd;
               body = slice_from lines (fmEnd + 1)
           in \<lparr>currentLastmod = findLastmod fm, fmLines = fm, bodyLines = body,
               valid = True\<rparr>)"

text \<open>The template \<open>`lastmod: "${newLastmod}"`\<close>.\<close>

definition lastmodLine :: "string \<Rightarrow> string" where
  "lastmodLine newLastmod = ''lastmod: '' @ DQ # newLastmod @ [DQ]"

text \<open>The loop of \<open>buildNewContent\<close>: the lines pushed to \<open>newFm\<close> and the final value of
  the flag \<open>replaced\<close>, starting from a given value of the flag.\<close>

fun replaceLoop :: "string \<Rightarrow> bool \<Rightarrow> string list \<Rightarrow> string list \<times> bool" where
  "replaceLoop newLastmod replaced [] = ([], replaced)"
| "replaceLoop newLastmod replaced (line # rest) =
     (if \<not> replaced \<and> startsWith line ''lastmod:''
      then (let (out, r) = replaceLoop newLastmod True rest
            in (lastmodLine newLastmod # out, r))
      else (let (out, r) = replaceLoop newLastmod replaced rest
            in (line # out, r)))"

definition newFm :: "string list \<Rightarrow> string \<Rightarrow> string list" where
  "newFm fm newLastmod =
     (let (out, replaced) = replaceLoop newLastmod False fm
      in if \<not> replaced then out @ [lastmodLine newLastmod] else out)"

definition buildNewContent :: "string \<Rightarrow> string list \<Rightarrow> string list \<Rightarrow> string \<Rightarrow> string" where
  "buildNewContent delim fm body newLastmod =
     (delim @ [NL]) @ join_nl (newFm fm newLastmod) @ (NL # delim @ [NL]) @ join_nl body"

subsection \<open>Diff engine: \<open>diffImages\<close>\<close>

text \<open>An image entry of the cache: the fingerprint is \<open>mtimeMs\<close> in the timestamp
  generation and \<open>hash\<close> in the hash generation. An inventory is a JavaScript object
  keyed by relative path, kept as an association list in insertion order.\<close>

record 'f image =
  fingerprint :: 'f
  size_bytes :: nat

type_synonym 'f inventory = "(string \<times> 'f image) list"

record diff =
  added :: nat
  changed :: nat
  deleted :: nat

text \<open>\<open>Object.keys(o)\<close>, and \<open>new Set(Object.keys(o))\<close> in iteration order.\<close>

definition keys :: "(string \<times> 'v) list \<Rightarrow> string list" where
  "keys obj = map fst obj"

definition keySet :: "(string \<times> 'v) list \<Rightarrow> string list" where
  "keySet obj = remdups (keys obj)"

definition differs :: "'f image option \<Rightarrow> 'f image option \<Rightarrow> bool" where
  "differs p c =
     (case (p, c) of
        (Some pv, Some cv) \<Rightarrow>
          fingerprint pv \<noteq> fingerprint cv \<or> size_bytes pv \<noteq> size_bytes cv
      | _ \<Rightarrow> False)"

text \<open>The first loop (over \<open>currKeys\<close>) carries \<open>added\<close> and \<open>changed\<close>, the second
  (over \<open>prevKeys\<close>) carries \<open>deleted\<close>.\<close>

definition diffImages :: "'f inventory \<Rightarrow> 'f inventory \<Rightarrow> diff" where
  "diffImages prevImages currentImages =
     (let prevKeys = keySet prevImages;
          currKeys = keySet currentImages;
          (a, c) = fold (\<lambda>key (a, c).
                      if key \<notin> set prevKeys then (a + 1, c)
                      else if differs (map_of prevImages key) (map_of currentImages key)
                           then (a, c + 1) else (a, c))
                    currKeys (0, 0);
          d = fold (\<lambda>key d. if key \<notin> set currKeys then d + 1 else d) prevKeys 0
      in \<lparr>added = a, changed = c, deleted = d\<rparr>)"

subsection \<open>Timestamps: \<open>formatLocalISO\<close> and \<open>isNewerISO\<close>\<close>

text \<open>What \<open>formatLocalISO\<close> reads from a \<open>Date\<close>: the local calendar fields and
  \<open>getTimezoneOffset()\<close> (minutes, positive west of UTC). \<open>getMonth\<close> counts from 0.\<close>

record date =
  getFullYear :: int
  getMonth :: int
  getDate :: int
  getHours :: int
  getMinutes :: int
  getSeconds :: int
  getTimezoneOffset :: int

text \<open>\<open>String(n)\<close> for an integer: decimal digits, with a minus sign when negative.\<close>

definition digitChar :: "nat \<Rightarrow> char" where
  "digitChar d = char_of (48 + d)"

function digits :: "nat \<Rightarrow> string" where
  "digits n = (if n < 10 then [digitChar n] else digits (n div 10) @ [digitChar (n mod 10)])"
  by pat_completeness auto
termination
  by (relation "measure id") auto

declare digits.simps [simp del]

definition String_of :: "int \<Rightarrow> string" where
  "String_of n = (if n < 0 then CHR ''-'' # digits (nat (- n)) else digits (nat n))"

text \<open>\<open>const pad = (n) => String(n).padStart(2, "0")\<close>\<close>

definition pad :: "int \<Rightarrow> string" where
  "pad n = (let s = String_of n in replicate (2 - length s) (CHR ''0'') @ s)"

definition formatLocalISO :: "date \<Rightarrow> string" where
  "formatLocalISO d =
     (let year = getFullYear d;
          month = pad (getMonth d + 1);
          day = pad (getDate d);
          hour = pad (getHours d);
          minute = pad (getMinutes d);
          second = pad (getSeconds d);
          offsetMinutes = - getTimezoneOffset d;
          sign = (if offsetMinutes \<ge> 0 then ''+'' else ''-'');
          abs = \<bar>offsetMinutes\<bar>;
          offH = pad (abs div 60);
          offM = pad (abs mod 60)
      in String_of year @ ''-'' @ month @ ''-'' @ day @ ''T'' @ hour @ '':'' @ minute @ '':''
           @ second @ sign @ offH @ '':'' @ offM)"

text \<open>\<open>if (!currentVal) return true; return newVal > currentVal;\<close> with the comparison of
  JavaScript strings: lexicographic on code units.\<close>

definition isNewerISO :: "string \<Rightarrow> string \<Rightarrow> bool" where
  "isNewerISO newVal currentVal = (if currentVal = [] then True else newVal > currentVal)"

subsection \<open>The platform's \<open>Date\<close> in a zone of fixed offset\<close>

text \<open>
  Modelled from ECMA-262 (21.4.1, time values and local time), not from the repository:
  the day number and time within the day of a time value in milliseconds, the year from
  the day number, month and day of the month from the day within the year, and the
  \<open>Date\<close> fields of \<open>new Date(t)\<close> in a process whose zone is \<open>offsetMinutes\<close> east of UTC.
\<close>

definition msPerDay :: int where
  "msPerDay = 86400000"

definition DayFromYear :: "int \<Rightarrow> int" where
  "DayFromYear y =
     365 * (y - 1970) + (y - 1969) div 4 - (y - 1901) div 100 + (y - 1601) div 400"

definition InLeapYear :: "int \<Rightarrow> int" where
  "InLeapYear y = (if DayFromYear (y + 1) - DayFromYear y = 366 then 1 else 0)"

text \<open>The largest year whose first day is not after day \<open>d\<close>: the estimate from the mean
  length of a year is off by at most one.\<close>

definition YearFromDay :: "int \<Rightarrow> int" where
  "YearFromDay d =
     (let y0 = 1970 + (400 * d) div 146097
      in if DayFromYear (y0 + 1) \<le> d then y0 + 1
         else if DayFromYear y0 \<le> d then y0 else y0 - 1)"

definition MonthFromDay :: "int \<Rightarrow> int \<Rightarrow> int" where
  "MonthFromDay dayWithinYear leap =
     (if dayWithinYear < 31 then 0
      else if dayWithinYear < 59 + leap then 1
      else if dayWithinYear < 90 + leap then 2
      else if dayWithinYear < 120 + leap then 3
      else if dayWithinYear < 151 + leap then 4
      else if dayWithinYear < 181 + leap then 5
      else if dayWithinYear < 212 + leap then 6
      else if dayWithinYear < 243 + leap then 7
      else if dayWithinYear < 273 + leap then 8
      else if dayWithinYear < 304 + leap then 9
      else if dayWithinYear < 334 + leap then 10
      else 11)"

definition DateFromDay :: "int \<Rightarrow> int \<Rightarrow> int" where
  "DateFromDay dayWithinYear leap =
     (let m = MonthFromDay dayWithinYear leap
      in if m = 0 then dayWithinYear + 1
         else if m = 1 then dayWithinYear - 30
         else if m = 2 then dayWithinYear - 58 - leap
         else if m = 3 then dayWithinYear - 89 - leap
         else if m = 4 then dayWithinYear - 119 - leap
         else if m = 5 then dayWithinYear - 150 - leap
         else if m = 6 then dayWithinYear - 180 - leap
         else if m = 7 then dayWithinYear - 211 - leap
         else if m = 8 then dayWithinYear - 242 - leap
         else if m = 9 then dayWithinYear - 272 - leap
         else if m = 10 then dayWithinYear - 303 - leap
         else dayWithinYear - 333 - leap)"

definition newDate :: "int \<Rightarrow> int \<Rightarrow> date" where
  "newDate offsetMinutes t =
     (let lt = t + offsetMinutes * 60000;
          day = lt div msPerDay;
          y = YearFromDay day;
          dayWithinYear = day - DayFromYear y;
          leap = InLeapYear y
      in \<lparr>getFullYear = y,
          getMonth = MonthFromDay dayWithinYear leap,
          getDate = DateFromDay dayWithinYear leap,
          getHours = (lt div 3600000) mod 24,
          getMinutes = (lt div 60000) mod 60,
          getSeconds = (lt div 1000) mod 60,
          getTimezoneOffset = - offsetMinutes\<rparr>)"

subsection \<open>The file system, the environment and the state of a run\<close>

text \<open>An exception of the platform that the script does not catch inside \<open>processBundle\<close>:
  \<open>fs.readdir\<close>, \<open>fs.readFile\<close> or \<open>fs.writeFile\<close> rejecting, with the path.\<close>

datatype error = ReaddirError string | ReadFileError string | WriteFileError string

datatype dirent = FileEntry string | DirectoryEntry string | OtherEntry string

datatype stat_kind = IsDirectory | NotDirectory

text \<open>The flag, the fields of the configuration record \<open>CONFIG\<close> (\<open>cfg_\<close>) and the parts of the file system the script only
  reads. \<open>statSync\<close> is the call on a bundle candidate (\<open>None\<close>: it throws);
  \<open>readdir\<close> gives \<open>None\<close> when the directory cannot be listed; \<open>statImage\<close> is what
  \<open>scanImagesForBundle\<close> learns about one image file, \<open>None\<close> when \<open>statSync\<close> (or
  hashing, in the hash generation) throws; \<open>writable\<close> and \<open>cacheWritable\<close> say whether
  \<open>fs.writeFile\<close> succeeds; \<open>localDate\<close> is \<open>new Date(ms)\<close> in the local zone and
  \<open>now\<close> the time value of \<open>new Date()\<close> while the given bundle is processed.\<close>

record 'f env =
  DRY_RUN :: bool
  cfg_targetDirs :: "string list"
  cfg_extensions :: "string list"
  cfg_maxDepth :: int
  cfg_frontmatterDelim :: string
  glob :: "string \<Rightarrow> string list"
  statSync :: "string \<Rightarrow> stat_kind option"
  existsSync :: "string \<Rightarrow> bool"
  readdir :: "string \<Rightarrow> dirent list option"
  statImage :: "string \<Rightarrow> 'f image option"
  writable :: "string \<Rightarrow> bool"
  cacheWritable :: bool
  localDate :: "int \<Rightarrow> date"
  now :: "string \<Rightarrow> int"

text \<open>The constants the module derives from \<open>CONFIG\<close>.\<close>

definition toLowerCase :: "string \<Rightarrow> string" where
  "toLowerCase s =
     map (\<lambda>c. if CHR ''A'' \<le> c \<and> c \<le> CHR ''Z'' then char_of (of_char c + (32::nat)) else c) s"

definition TARGET_DIRS :: "'f env \<Rightarrow> string list" where
  "TARGET_DIRS E = cfg_targetDirs E"

definition EXTENSIONS :: "'f env \<Rightarrow> string list" where
  "EXTENSIONS E = map toLowerCase (cfg_extensions E)"

definition MAXDEPTH :: "'f env \<Rightarrow> int" where
  "MAXDEPTH E = cfg_maxDepth E"

definition FRONTMATTER_DELIM :: "'f env \<Rightarrow> string" where
  "FRONTMATTER_DELIM E =
     (if cfg_frontmatterDelim E = [] then ''---'' else cfg_frontmatterDelim E)"

record stats =
  totalBundles :: nat
  updatedBundles :: nat
  unchangedBundles :: nat
  noImageBundles :: nat
  totalAdded :: nat
  totalChanged :: nat
  totalDeleted :: nat

text \<open>The cache file on storage: absent, not readable as JSON, or a JSON value with a
  \<open>version\<close> and, when present, its \<open>bundles\<close> object. A bundle entry is kept as the
  inventory under its \<open>images\<close> key.\<close>

datatype 'f cache_file =
  Absent | Unparseable | CacheJson int "(string \<times> 'f inventory) list option"

text \<open>What a run changes: the descriptor files (\<open>None\<close>: \<open>fs.readFile\<close> rejects), the
  cache file, the object \<open>cache.bundles\<close> in memory, the \<open>stats\<close> object of \<open>main\<close>, and
  the statistics printed by \<open>footer\<close> (\<open>None\<close> until it is called). \<open>cachePuts\<close> is a
  history variable: every assignment \<open>cache.bundles[relDir] = ...\<close>, in order.\<close>

record 'f world =
  files :: "string \<Rightarrow> string option"
  cacheFile :: "'f cache_file"
  bundles :: "(string \<times> 'f inventory) list"
  cachePuts :: "(string \<times> 'f inventory) list"
  stats :: stats
  footer :: "stats option"

text \<open>The start of the module: \<open>cache.bundles\<close> is taken from the file only when the
  version matches and \<open>parsed.bundles\<close> is there.\<close>

definition loadCache :: "int \<Rightarrow> 'f cache_file \<Rightarrow> (string \<times> 'f inventory) list" where
  "loadCache CACHE_VERSION f =
     (case f of
        CacheJson v (Some b) \<Rightarrow> if v = CACHE_VERSION then b else []
      | _ \<Rightarrow> [])"

text \<open>\<open>cache.bundles[relDir] = { images: ... }\<close>\<close>

definition cachePut :: "string \<Rightarrow> 'f inventory \<Rightarrow> 'f world \<Rightarrow> 'f world" where
  "cachePut relDir images w =
     w\<lparr>bundles := AList.update relDir images (bundles w),
       cachePuts := cachePuts w @ [(relDir, images)]\<rparr>"

text \<open>\<open>cache.bundles[relDir] || { images: {} }\<close>, then \<open>.images\<close>\<close>

definition cacheGet :: "string \<Rightarrow> 'f world \<Rightarrow> 'f inventory" where
  "cacheGet relDir w = (case map_of (bundles w) relDir of None \<Rightarrow> [] | Some images \<Rightarrow> images)"

subsection \<open>Inventory scanner: \<open>getImageFiles\<close> and \<open>scanImagesForBundle\<close>\<close>

definition isImageName :: "string list \<Rightarrow> string \<Rightarrow> bool" where
  "isImageName exts name =
     (let low = toLowerCase name in list_ex (\<lambda>ext. endsWith low (''.'' @ ext)) exts)"

definition pathJoin :: "string \<Rightarrow> string \<Rightarrow> string" where
  "pathJoin dir name = dir @ ''/'' @ name"

text \<open>\<open>walk(current, depth)\<close> and its loop over the entries; the result is the list of
  files pushed, or the error of the first \<open>readdir\<close> that rejects.\<close>

function walk :: "'f env \<Rightarrow> int \<Rightarrow> string \<Rightarrow> int \<Rightarrow> error + string list"
  and walkEntries :: "'f env \<Rightarrow> int \<Rightarrow> string \<Rightarrow> int \<Rightarrow> dirent list \<Rightarrow> error + string list"
where
  "walk E maxDepth current depth =
     (case readdir E current of
        None \<Rightarrow> Inl (ReaddirError current)
      | Some entries \<Rightarrow> walkEntries E maxDepth current depth entries)"
| "walkEntries E maxDepth current depth [] = Inr []"
| "walkEntries E maxDepth current depth (entry # rest) =
     (case entry of
        FileEntry name \<Rightarrow>
          (case walkEntries E maxDepth current depth rest of
             Inl e \<Rightarrow> Inl e
           | Inr fs \<Rightarrow>
               Inr (if isImageName (EXTENSIONS E) name
                    then pathJoin current name # fs else fs))
      | DirectoryEntry name \<Rightarrow>
          (if depth + 1 < maxDepth
           then (case walk E maxDepth (pathJoin current name) (depth + 1) of
                   Inl e \<Rightarrow> Inl e
                 | Inr sub \<Rightarrow>
                     (case walkEntries E maxDepth current depth rest of
                        Inl e \<Rightarrow> Inl e
                      | Inr fs \<Rightarrow> Inr (sub @ fs)))
           else walkEntries E maxDepth current depth rest)
      | OtherEntry name \<Rightarrow> walkEntries E maxDepth current depth rest)"
  by pat_completeness auto
termination
  by (relation "measures
        [\<lambda>x. case x of Inl (E, m, c, d) \<Rightarrow> nat (m - d) | Inr (E, m, c, d, es) \<Rightarrow> nat (m - d),
         \<lambda>x. case x of Inl _ \<Rightarrow> 1 | Inr _ \<Rightarrow> 0,
         \<lambda>x. case x of Inl _ \<Rightarrow> 0 | Inr (E, m, c, d, es) \<Rightarrow> length es]")
     auto

definition getImageFiles :: "'f env \<Rightarrow> string \<Rightarrow> int \<Rightarrow> error + string list" where
  "getImageFiles E dir maxDepth = walk E maxDepth dir 0"

text \<open>The loop of \<open>scanImagesForBundle\<close>: a file whose \<open>statSync\<close> throws is skipped.\<close>

definition scanImagesForBundle :: "'f env \<Rightarrow> string \<Rightarrow> int \<Rightarrow> error + 'f inventory" where
  "scanImagesForBundle E absDir maxDepth =
     (case getImageFiles E absDir maxDepth of
        Inl e \<Rightarrow> Inl e
      | Inr fs \<Rightarrow>
          Inr (fold (\<lambda>rel result.
                 case statImage E rel of
                   None \<Rightarrow> result
                 | Some st \<Rightarrow> AList.update rel st result) fs []))"

subsection \<open>Bundle processing, timestamp generation (cache version 2)\<close>

text \<open>The loop that determines \<open>maxMtimeMs\<close>, starting from 0.\<close>

definition maxMtime :: "int inventory \<Rightarrow> int" where
  "maxMtime currentImages =
     fold (\<lambda>key maxMtimeMs.
             case map_of currentImages key of
               None \<Rightarrow> maxMtimeMs
             | Some e \<Rightarrow> if fingerprint e > maxMtimeMs then fingerprint e else maxMtimeMs)
          (keys currentImages) 0"

definition addDiff :: "diff \<Rightarrow> stats \<Rightarrow> stats" where
  "addDiff d s =
     s\<lparr>totalAdded := totalAdded s + added d,
       totalChanged := totalChanged s + changed d,
       totalDeleted := totalDeleted s + deleted d\<rparr>"

definition incNoImage :: "'f world \<Rightarrow> 'f world" where
  "incNoImage w = w\<lparr>stats := (stats w)\<lparr>noImageBundles := noImageBundles (stats w) + 1\<rparr>\<rparr>"

definition incUnchanged :: "'f world \<Rightarrow> 'f world" where
  "incUnchanged w = w\<lparr>stats := (stats w)\<lparr>unchangedBundles := unchangedBundles (stats w) + 1\<rparr>\<rparr>"

definition incUpdated :: "'f world \<Rightarrow> 'f world" where
  "incUpdated w = w\<lparr>stats := (stats w)\<lparr>updatedBundles := updatedBundles (stats w) + 1\<rparr>\<rparr>"

definition writeFile :: "string \<Rightarrow> string \<Rightarrow> 'f world \<Rightarrow> 'f world" where
  "writeFile file content w = w\<lparr>files := (files w)(file := Some content)\<rparr>"

text \<open>The steps after the descriptor has been parsed as valid, the same in both
  generations: decide, count, write unless \<open>DRY_RUN\<close>, then put the inventory into the
  cache. A rejected \<open>fs.writeFile\<close> leaves before the cache assignment.\<close>

definition decideAndWrite ::
  "'f env \<Rightarrow> string \<Rightarrow> string \<Rightarrow> 'f inventory \<Rightarrow> parsed \<Rightarrow> string \<Rightarrow> 'f world
     \<Rightarrow> error option \<times> 'f world" where
  "decideAndWrite E relDir indexFile currentImages p newLastmod w =
     (let shouldUpdateLastmod = isNewerISO newLastmod (currentLastmod p)
      in if \<not> shouldUpdateLastmod
         then (None, cachePut relDir currentImages (incUnchanged w))
         else
           let w2 = incUpdated w
           in if DRY_RUN E then (None, cachePut relDir currentImages w2)
              else if \<not> writable E indexFile then (Some (WriteFileError indexFile), w2)
              else (None, cachePut relDir currentImages
                      (writeFile indexFile
                         (buildNewContent (FRONTMATTER_DELIM E) (fmLines p) (bodyLines p)
                            newLastmod) w2)))"

definition processBundle_v2 :: "int env \<Rightarrow> string \<Rightarrow> int world \<Rightarrow> error option \<times> int world" where
  "processBundle_v2 E absDir w =
     (let relDir = absDir;
          indexFile = pathJoin absDir ''index.md''
      in if \<not> existsSync E indexFile then (None, w)
         else
           case scanImagesForBundle E absDir (MAXDEPTH E) of
             Inl e \<Rightarrow> (Some e, w)
           | Inr currentImages \<Rightarrow>
               if length (keys currentImages) = 0
               then (None, cachePut relDir [] (incNoImage w))
               else
                 let prevImages = cacheGet relDir w;
                     w1 = w\<lparr>stats := addDiff (diffImages prevImages currentImages) (stats w)\<rparr>;
                     newLastmod = formatLocalISO (localDate E (maxMtime currentImages))
                 in case files w1 indexFile of
                      None \<Rightarrow> (Some (ReadFileError indexFile), w1)
                    | Some raw \<Rightarrow>
                        let p = parseFrontmatter (FRONTMATTER_DELIM E) raw
                        in if \<not> valid p then (None, cachePut relDir currentImages w1)
                           else decideAndWrite E relDir indexFile currentImages p newLastmod w1)"

subsection \<open>Bundle processing, hash generation (cache version 3)\<close>


subsection \<open>\<open>main\<close>\<close>

text \<open>\<open>dir.endsWith(path.sep) ? dir.slice(0, -1) : dir\<close>\<close>

definition clean :: "string \<Rightarrow> string" where
  "clean dir = (if endsWith dir ''/'' then butlast dir else dir)"

definition incTotal :: "'f world \<Rightarrow> 'f world" where
  "incTotal w = w\<lparr>stats := (stats w)\<lparr>totalBundles := totalBundles (stats w) + 1\<rparr>\<rparr>"

text \<open>The two nested loops of \<open>main\<close>, the same in both generations, over the
  \<open>processBundle\<close> of the generation. A rejected \<open>processBundle\<close> leaves both loops:
  nothing in \<open>main\<close> catches it.\<close>

fun dirLoop ::
  "('f env \<Rightarrow> string \<Rightarrow> 'f world \<Rightarrow> error option \<times> 'f world) \<Rightarrow> 'f env \<Rightarrow> string list
     \<Rightarrow> 'f world \<Rightarrow> error option \<times> 'f world" where
  "dirLoop processBundle E [] w = (None, w)"
| "dirLoop processBundle E (dir # dirs) w =
     (case statSync E dir of
        None \<Rightarrow> dirLoop processBundle E dirs w
      | Some NotDirectory \<Rightarrow> dirLoop processBundle E dirs w
      | Some IsDirectory \<Rightarrow>
          (case processBundle E (clean dir) (incTotal w) of
             (Some e, w') \<Rightarrow> (Some e, w')
           | (None, w') \<Rightarrow> dirLoop processBundle E dirs w'))"

fun patternLoop ::
  "('f env \<Rightarrow> string \<Rightarrow> 'f world \<Rightarrow> error option \<times> 'f world) \<Rightarrow> 'f env \<Rightarrow> string list
     \<Rightarrow> 'f world \<Rightarrow> error option \<times> 'f world" where
  "patternLoop processBundle E [] w = (None, w)"
| "patternLoop processBundle E (pattern # patterns) w =
     (case dirLoop processBundle E (glob E pattern) w of
        (Some e, w') \<Rightarrow> (Some e, w')
      | (None, w') \<Rightarrow> patternLoop processBundle E patterns w')"

definition zeroStats :: stats where
  "zeroStats =
     \<lparr>totalBundles = 0, updatedBundles = 0, unchangedBundles = 0, noImageBundles = 0,
      totalAdded = 0, totalChanged = 0, totalDeleted = 0\<rparr>"

definition CACHE_PATH :: string where
  "CACHE_PATH = ''.hugo-update-lastmod.cache.json''"

text \<open>\<open>fs.writeFile(CACHE_PATH, JSON.stringify({version: CACHE_VERSION, bundles:
  cache.bundles}, null, 2))\<close> and then \<open>footer(stats)\<close>.\<close>

definition persist :: "int \<Rightarrow> 'f world \<Rightarrow> 'f world" where
  "persist CACHE_VERSION w = w\<lparr>cacheFile := CacheJson CACHE_VERSION (Some (bundles w))\<rparr>"

definition printFooter :: "'f world \<Rightarrow> 'f world" where
  "printFooter w = w\<lparr>footer := Some (stats w)\<rparr>"

text \<open>\<open>main\<close> of the timestamp generation writes the cache file in every run that gets
  there (\<open>// Cache immer speichern - auch bei DRY_RUN\<close>). The result \<open>Some e\<close> is the
  rejection that \<open>main().catch\<close> turns into \<open>process.exit(1)\<close>.\<close>

definition main_v2 :: "int env \<Rightarrow> int world \<Rightarrow> error option \<times> int world" where
  "main_v2 E w =
     (case patternLoop processBundle_v2 E (TARGET_DIRS E) (w\<lparr>stats := zeroStats\<rparr>) of
        (Some e, w') \<Rightarrow> (Some e, w')
      | (None, w') \<Rightarrow>
          if \<not> cacheWritable E then (Some (WriteFileError CACHE_PATH), w')
          else (None, printFooter (persist 2 w')))"


text \<open>The state in which \<open>main\<close> starts: the cache loaded from the cache file.\<close>

definition start :: "int \<Rightarrow> (string \<Rightarrow> string option) \<Rightarrow> 'f cache_file \<Rightarrow> 'f world" where
  "start CACHE_VERSION fs cf =
     \<lparr>files = fs, cacheFile = cf, bundles = loadCache CACHE_VERSION cf, cachePuts = [],
      stats = zeroStats, footer = None\<rparr>"

text \<open>The bundle identifiers a run hands to \<open>processBundle\<close>.\<close>

definition processedDirs :: "'f env \<Rightarrow> string list" where
  "processedDirs E =
     map clean (filter (\<lambda>dir. statSync E dir = Some IsDirectory)
                  (concat (map (glob E) (TARGET_DIRS E))))"

subsection \<open>A small project used for the concrete runs below\<close>

text \<open>Two bundles \<open>g/a\<close> and \<open>g/b\<close> under the pattern \<open>g/*/\<close>, one image each. The
  listing of \<open>g/a\<close>, the image data and the flag are parameters; the zone is UTC.\<close>

definition demoEnv ::
  "bool \<Rightarrow> dirent list option \<Rightarrow> (string \<Rightarrow> 'f image option) \<Rightarrow> 'f env" where
  "demoEnv dry listA imgs =
     \<lparr>DRY_RUN = dry,
      cfg_targetDirs = [''g/*/''],
      cfg_extensions = [''jpg'', ''png''],
      cfg_maxDepth = 1,
      cfg_frontmatterDelim = ''---'',
      glob = (\<lambda>p. if p = ''g/*/'' then [''g/a/'', ''g/b/''] else []),
      statSync = (\<lambda>d. if d = ''g/a/'' \<or> d = ''g/b/'' then Some IsDirectory else None),
      existsSync = (\<lambda>f. f = ''g/a/index.md'' \<or> f = ''g/b/index.md''),
      readdir = (\<lambda>d. if d = ''g/a'' then listA
                     else if d = ''g/b'' then Some [FileEntry ''index.md'', FileEntry ''y.JPG'']
                     else None),
      statImage = imgs,
      writable = (\<lambda>f. True),
      cacheWritable = True,
      localDate = newDate 0,
      now = (\<lambda>d. 1763207021000)\<rparr>"

definition demoImages :: "'f \<Rightarrow> 'f \<Rightarrow> string \<Rightarrow> 'f image option" where
  "demoImages fa fb f =
     (if f = ''g/a/x.jpg'' then Some \<lparr>fingerprint = fa, size_bytes = 100\<rparr>
      else if f = ''g/b/y.JPG'' then Some \<lparr>fingerprint = fb, size_bytes = 50\<rparr>
      else None)"

definition demoFiles :: "string option \<Rightarrow> string \<Rightarrow> string option" where
  "demoFiles a f =
     (if f = ''g/a/index.md'' then a
      else if f = ''g/b/index.md''
        then Some (join_nl [''---'', ''title: B'', ''lastmod: \"2030-01-01T00:00:00+00:00\"'',
                            ''---'', ''Bye''])
      else None)"

definition demoA :: string where
  "demoA = join_nl [''---'', ''title: A'', ''---'', ''Hello'']"

text \<open>The delimiter indices of \<open>fmIdx\<close> with the enumeration starting at \<open>n\<close>
  (used in proofs only; \<open>fmIdx delim lines = idxFrom delim 0 lines\<close>).\<close>

definition idxFrom :: "string \<Rightarrow> nat \<Rightarrow> string list \<Rightarrow> int list" where
  "idxFrom delim n lines =
     filter (\<lambda>i. i \<noteq> - 1)
       (map (\<lambda>(i, line). if trim line = delim then int i else - 1) (enumerate n lines))"

text \<open>Header lines as a valid parse returns them: the delimiter is a trimmed line without
  a line break, and no header line has a line break or trims to the delimiter.\<close>

definition validHeader :: "string \<Rightarrow> string list \<Rightarrow> bool" where
  "validHeader delim fm \<longleftrightarrow>
     NL \<notin> set delim \<and> trim delim = delim \<and> (\<forall>l\<in>set fm. NL \<notin> set l \<and> trim l \<noteq> delim)"

subsection \<open>Predicates used in the proofs\<close>

text \<open>The effect of one call on the cache, the cache file and the footer.\<close>

definition putEffect :: "'f env \<Rightarrow> string \<Rightarrow> 'f world \<Rightarrow> error option \<Rightarrow> 'f world \<Rightarrow> bool" where
  "putEffect E d w r w' \<longleftrightarrow>
     cacheFile w' = cacheFile w \<and> footer w' = footer w \<and>
     (case r of
        Some e \<Rightarrow> bundles w' = bundles w \<and> cachePuts w' = cachePuts w
      | None \<Rightarrow>
          if existsSync E (pathJoin d ''index.md'')
          then (case scanImagesForBundle E d (MAXDEPTH E) of
                  Inl e \<Rightarrow> False
                | Inr images \<Rightarrow>
                    bundles w' = AList.update d images (bundles w) \<and>
                    cachePuts w' = cachePuts w @ [(d, images)])
          else w' = w)"

text \<open>Entries of bundles outside \<open>D\<close> stay as they are, and no key is lost.\<close>

definition othersKept :: "string set \<Rightarrow> 'f world \<Rightarrow> 'f world \<Rightarrow> bool" where
  "othersKept D a b \<longleftrightarrow>
     (\<forall>k. k \<notin> D \<longrightarrow> map_of (bundles b) k = map_of (bundles a) k) \<and>
     fst ` set (bundles a) \<subseteq> fst ` set (bundles b)"

text \<open>An entry that holds the scanned inventory of its bundle keeps doing so.\<close>

definition entryCurrent :: "'f env \<Rightarrow> string \<Rightarrow> 'f world \<Rightarrow> bool" where
  "entryCurrent E d w \<longleftrightarrow>
     (case scanImagesForBundle E d (MAXDEPTH E) of
        Inl e \<Rightarrow> False
      | Inr images \<Rightarrow> map_of (bundles w) d = Some images)"

subsection \<open>Notions used in the proofs about timestamps\<close>

text \<open>Decimal strings of a fixed width (used in proofs only).\<close>

fun digitsW :: "nat \<Rightarrow> nat \<Rightarrow> string" where
  "digitsW 0 n = []"
| "digitsW (Suc k) n = digitsW k (n div 10) @ [digitChar (n mod 10)]"








section \<open>Properties\<close>

subsection \<open>Diff engine\<close>

lemma fold_added:
  "fst (fold (\<lambda>key (a, c). if key \<notin> P then (a + 1, c)
                 else if Q key then (a, c + 1) else (a, c)) ks (a0::nat, c0::nat))
   = a0 + length (filter (\<lambda>k. k \<notin> P) ks)"
  by (induction ks arbitrary: a0 c0) auto

lemma fold_deleted:
  "fold (\<lambda>key d. if key \<notin> C then d + 1 else d) ks (d0::nat)
   = d0 + length (filter (\<lambda>k. k \<notin> C) ks)"
  by (induction ks arbitrary: d0) auto

lemma added_diffImages:
  "added (diffImages A B) = length (filter (\<lambda>k. k \<notin> set (keySet A)) (keySet B))"
  using fold_added [of "set (keySet A)" "\<lambda>key. differs (map_of A key) (map_of B key)" "keySet B" 0 0]
  by (auto simp: diffImages_def Let_def split: prod.splits)

lemma deleted_diffImages:
  "deleted (diffImages A B) = length (filter (\<lambda>k. k \<notin> set (keySet B)) (keySet A))"
  by (simp add: diffImages_def Let_def fold_deleted split: prod.splits)

text \<open>
  Claim C8. Swapping the two inventories swaps the counts of added and deleted entries:
  the \<open>added\<close> count of \<open>diffImages A B\<close> is the \<open>deleted\<close> count of
  \<open>diffImages B A\<close>, and the \<open>deleted\<close> count of \<open>diffImages A B\<close> is the
  \<open>added\<close> count of \<open>diffImages B A\<close>, for all inventories.
\<close>

theorem diffImages_swap:
  "added (diffImages A B) = deleted (diffImages B A) \<and>
   deleted (diffImages A B) = added (diffImages B A)"
  by (simp add: added_diffImages deleted_diffImages)

theorem diffImages_swap_witness:
  "added (diffImages [(''a.jpg'', \<lparr>fingerprint = 1::int, size_bytes = 100\<rparr>)]
                     [(''a.jpg'', \<lparr>fingerprint = 1, size_bytes = 100\<rparr>),
                      (''b.jpg'', \<lparr>fingerprint = 2, size_bytes = 50\<rparr>)]) = 1 \<and>
   deleted (diffImages [(''a.jpg'', \<lparr>fingerprint = 1::int, size_bytes = 100\<rparr>),
                        (''b.jpg'', \<lparr>fingerprint = 2, size_bytes = 50\<rparr>)]
                       [(''a.jpg'', \<lparr>fingerprint = 1, size_bytes = 100\<rparr>)]) = 1"
  using diffImages_swap [of "[(''a.jpg'', \<lparr>fingerprint = 1::int, size_bytes = 100\<rparr>)]"
     "[(''a.jpg'', \<lparr>fingerprint = 1, size_bytes = 100\<rparr>),
                      (''b.jpg'', \<lparr>fingerprint = 2, size_bytes = 50\<rparr>)]"]
  by (simp add: added_diffImages keySet_def keys_def)

subsection \<open>Lines of a text\<close>

lemma split_nl_nonempty [simp]: "split_nl s \<noteq> []"
  by (induction s) (auto split: list.splits)

lemma split_nl_no_NL: "NL \<notin> set l \<Longrightarrow> split_nl l = [l]"
  by (induction l) auto

lemma split_nl_append: "NL \<notin> set a \<Longrightarrow> split_nl (a @ NL # b) = a # split_nl b"
  by (induction a) (auto split: list.splits)

lemma split_nl_lines_no_NL: "l \<in> set (split_nl s) \<Longrightarrow> NL \<notin> set l"
proof (induction s arbitrary: l)
  case Nil
  then show ?case by simp
next
  case (Cons c cs)
  obtain h t where ht: "split_nl cs = h # t"
    by (cases "split_nl cs") auto
  show ?case
  proof (cases "c = NL")
    case True
    with Cons show ?thesis by auto
  next
    case False
    with Cons ht show ?thesis by auto
  qed
qed

lemma split_join: "ls \<noteq> [] \<Longrightarrow> \<forall>l\<in>set ls. NL \<notin> set l \<Longrightarrow> split_nl (join_nl ls) = ls"
proof (induction ls rule: join_nl.induct)
  case 1
  then show ?case by simp
next
  case (2 l)
  then show ?case by (simp add: split_nl_no_NL)
next
  case (3 l m ls)
  then show ?case by (simp add: split_nl_append)
qed

lemma join_split: "join_nl (split_nl s) = s"
proof (induction s)
  case Nil
  then show ?case by simp
next
  case (Cons c cs)
  obtain h t where ht: "split_nl cs = h # t"
    by (cases "split_nl cs") auto
  show ?case
  proof (cases "c = NL")
    case True
    with Cons ht show ?thesis by simp
  next
    case False
    with Cons ht show ?thesis by (cases t) auto
  qed
qed

lemma join_nl_Cons: "ls \<noteq> [] \<Longrightarrow> join_nl (l # ls) = l @ NL # join_nl ls"
  by (cases ls) auto

subsection \<open>Descriptor editor\<close>

lemma fmIdx_idxFrom: "fmIdx delim lines = idxFrom delim 0 lines"
  by (simp add: fmIdx_def idxFrom_def)

lemma idxFrom_Nil [simp]: "idxFrom delim n [] = []"
  by (simp add: idxFrom_def)

lemma idxFrom_Cons:
  "idxFrom delim n (l # ls) =
     (if trim l = delim then int n # idxFrom delim (Suc n) ls else idxFrom delim (Suc n) ls)"
  by (simp add: idxFrom_def)

lemma idxFrom_skip:
  "\<forall>l\<in>set pre. trim l \<noteq> delim \<Longrightarrow>
   idxFrom delim n (pre @ rest) = idxFrom delim (n + length pre) rest"
  by (induction pre arbitrary: n) (auto simp: idxFrom_Cons)

lemma idxFrom_decomp:
  "idxFrom delim n lines = i # js \<Longrightarrow>
   \<exists>pre d rest. lines = pre @ d # rest \<and> (\<forall>l\<in>set pre. trim l \<noteq> delim) \<and> trim d = delim \<and>
      i = int (n + length pre) \<and> js = idxFrom delim (Suc (n + length pre)) rest"
proof (induction lines arbitrary: n)
  case Nil
  then show ?case by simp
next
  case (Cons l ls)
  show ?case
  proof (cases "trim l = delim")
    case True
    with Cons.prems have "i = int n" "js = idxFrom delim (Suc n) ls"
      by (auto simp: idxFrom_Cons)
    with True show ?thesis
      by (intro exI [of _ "[]"] exI [of _ l] exI [of _ ls]) simp
  next
    case False
    with Cons.prems have "idxFrom delim (Suc n) ls = i # js"
      by (simp add: idxFrom_Cons)
    from Cons.IH [OF this] obtain pre d rest where
      h: "ls = pre @ d # rest" "\<forall>l\<in>set pre. trim l \<noteq> delim" "trim d = delim"
         "i = int (Suc n + length pre)" "js = idxFrom delim (Suc (Suc n + length pre)) rest"
      by blast
    with False show ?thesis
      by (intro exI [of _ "l # pre"] exI [of _ d] exI [of _ rest]) simp
  qed
qed

lemma parse_of_lines:
  assumes "split_nl content = pre @ d1 # fm @ d2 # body"
    and "\<forall>l\<in>set pre. trim l \<noteq> delim" and "trim d1 = delim"
    and "\<forall>l\<in>set fm. trim l \<noteq> delim" and "trim d2 = delim"
  shows "parseFrontmatter delim content =
           \<lparr>currentLastmod = findLastmod fm, fmLines = fm, bodyLines = body, valid = True\<rparr>"
    and "fmIdx delim (split_nl content) ! 0 = int (length pre)"
proof -
  have "idxFrom delim 0 (pre @ d1 # fm @ d2 # body)
        = int (length pre) # idxFrom delim (Suc (length pre)) (fm @ d2 # body)"
    using assms(2,3) by (simp add: idxFrom_skip idxFrom_Cons)
  also have "idxFrom delim (Suc (length pre)) (fm @ d2 # body)
        = int (Suc (length pre) + length fm) # idxFrom delim (Suc (Suc (length pre) + length fm)) body"
    using assms(4,5) by (simp add: idxFrom_skip idxFrom_Cons)
  finally have idx: "fmIdx delim (split_nl content)
        = int (length pre) # int (Suc (length pre) + length fm)
            # idxFrom delim (Suc (Suc (length pre) + length fm)) body"
    by (simp add: fmIdx_idxFrom assms(1))
  show "fmIdx delim (split_nl content) ! 0 = int (length pre)"
    by (simp add: idx)
  show "parseFrontmatter delim content =
           \<lparr>currentLastmod = findLastmod fm, fmLines = fm, bodyLines = body, valid = True\<rparr>"
  proof -
    let ?idx = "fmIdx delim (split_nl content)"
    have l: "\<not> (length ?idx < 2 \<or> ?idx ! 1 \<le> ?idx ! 0)"
      by (simp add: idx)
    have s: "nat (?idx ! 0) = length pre" "nat (?idx ! 1) = Suc (length pre + length fm)"
      by (simp_all add: idx nat_add_distrib)
    have "slice (split_nl content) (length pre + 1) (Suc (length pre + length fm)) = fm"
      by (simp add: assms(1) slice_def)
    moreover have "slice_from (split_nl content) (Suc (length pre + length fm) + 1) = body"
      by (simp add: assms(1) slice_from_def)
    ultimately show ?thesis
      unfolding parseFrontmatter_def Let_def using l by (simp only: s if_False)
  qed
qed

lemma parse_valid_decomp:
  assumes "valid (parseFrontmatter delim content)"
  shows "\<exists>pre d1 fm d2 body. split_nl content = pre @ d1 # fm @ d2 # body \<and>
           (\<forall>l\<in>set pre. trim l \<noteq> delim) \<and> trim d1 = delim \<and>
           (\<forall>l\<in>set fm. trim l \<noteq> delim) \<and> trim d2 = delim"
proof -
  from assms have len: "\<not> length (fmIdx delim (split_nl content)) < 2"
    by (auto simp: parseFrontmatter_def Let_def split: if_splits)
  then obtain i j js where ij: "idxFrom delim 0 (split_nl content) = i # j # js"
    by (cases "fmIdx delim (split_nl content)"; cases "tl (fmIdx delim (split_nl content))")
       (auto simp: fmIdx_idxFrom)
  from idxFrom_decomp [OF ij] obtain pre d1 rest where
    a: "split_nl content = pre @ d1 # rest" "\<forall>l\<in>set pre. trim l \<noteq> delim" "trim d1 = delim"
       "j # js = idxFrom delim (Suc (0 + length pre)) rest"
    by blast
  from idxFrom_decomp [OF a(4) [symmetric]] obtain fm d2 body where
    b: "rest = fm @ d2 # body" "\<forall>l\<in>set fm. trim l \<noteq> delim" "trim d2 = delim"
    by blast
  from a b show ?thesis by blast
qed

lemma trim_id: "s \<noteq> [] \<Longrightarrow> \<not> isSpace (hd s) \<Longrightarrow> \<not> isSpace (last s) \<Longrightarrow> trim s = s"
proof -
  assume a: "s \<noteq> []" "\<not> isSpace (hd s)" "\<not> isSpace (last s)"
  then have "dropWhile isSpace s = s"
    by (cases s) auto
  moreover from a have "dropWhile isSpace (rev s) = rev s"
    by (cases "rev s") (auto simp: last_rev [symmetric] simp del: last_rev)
  ultimately show ?thesis
    by (simp add: trim_def)
qed

lemma startsWith_lastmodLine [simp]: "startsWith (lastmodLine X) ''lastmod:''"
  by (simp add: startsWith_def lastmodLine_def)

lemma trim_lastmodLine [simp]: "trim (lastmodLine X) = lastmodLine X"
  by (rule trim_id) (simp_all add: lastmodLine_def isSpace_def DQ_def)

lemma strip_lastmodLine: "stripLastmodPrefix (lastmodLine X) = DQ # X @ [DQ]"
  by (simp add: stripLastmodPrefix_def startsWith_def lastmodLine_def isSpace_def DQ_def)

lemma extract_lastmodLine:
  "trim (removeQuotes (stripLastmodPrefix (lastmodLine X))) = trim (removeQuotes X)"
  by (simp add: strip_lastmodLine removeQuotes_def)

lemma replaceLoop_True: "replaceLoop X True fm = (fm, True)"
  by (induction fm) auto

lemma replaceLoop_False:
  "replaceLoop X False fm =
     (if \<exists>l\<in>set fm. startsWith l ''lastmod:''
      then (takeWhile (\<lambda>l. \<not> startsWith l ''lastmod:'') fm @ lastmodLine X
              # tl (dropWhile (\<lambda>l. \<not> startsWith l ''lastmod:'') fm), True)
      else (fm, False))"
  by (induction fm) (auto simp: replaceLoop_True)

lemma newFm_eq:
  "newFm fm X =
     (if \<exists>l\<in>set fm. startsWith l ''lastmod:''
      then takeWhile (\<lambda>l. \<not> startsWith l ''lastmod:'') fm @ lastmodLine X
              # tl (dropWhile (\<lambda>l. \<not> startsWith l ''lastmod:'') fm)
      else fm @ [lastmodLine X])"
  by (simp add: newFm_def replaceLoop_False)

lemma newFm_nonempty [simp]: "newFm fm X \<noteq> []"
  by (simp add: newFm_eq)

lemma set_tl_dropWhile: "set (tl (dropWhile P xs)) \<subseteq> set xs"
  by (induction xs) auto

lemma set_newFm: "set (newFm fm X) \<subseteq> insert (lastmodLine X) (set fm)"
  using set_takeWhileD [of _ "\<lambda>l. \<not> startsWith l ''lastmod:''" fm]
        set_tl_dropWhile [of "\<lambda>l. \<not> startsWith l ''lastmod:''" fm]
  by (auto simp: newFm_eq)

lemma filter_tl_dropWhile:
  "filter P (takeWhile P xs) @ filter P (tl (dropWhile P xs)) = filter P xs"
  by (induction xs) auto

lemma newFm_filter:
  "filter (\<lambda>l. \<not> startsWith l ''lastmod:'') (newFm fm X)
   = filter (\<lambda>l. \<not> startsWith l ''lastmod:'') fm"
  using filter_tl_dropWhile [of "\<lambda>l. \<not> startsWith l ''lastmod:''" fm]
  by (simp add: newFm_eq)

lemma findLastmod_append:
  "\<forall>l\<in>set pre. \<not> startsWith l ''lastmod:'' \<Longrightarrow> findLastmod (pre @ rest) = findLastmod rest"
  by (induction pre) auto

lemma findLastmod_newFm: "findLastmod (newFm fm X) = trim (removeQuotes X)"
proof (cases "\<exists>l\<in>set fm. startsWith l ''lastmod:''")
  case True
  have "\<forall>l\<in>set (takeWhile (\<lambda>l. \<not> startsWith l ''lastmod:'') fm). \<not> startsWith l ''lastmod:''"
    by (auto dest: set_takeWhileD)
  from findLastmod_append [OF this] True show ?thesis
    by (simp add: newFm_eq extract_lastmodLine)
next
  case False
  then have "\<forall>l\<in>set fm. \<not> startsWith l ''lastmod:''" by simp
  from findLastmod_append [OF this] False show ?thesis
    by (simp add: newFm_eq extract_lastmodLine)
qed

lemma split_join_append:
  "ls \<noteq> [] \<Longrightarrow> \<forall>l\<in>set ls. NL \<notin> set l \<Longrightarrow> split_nl (join_nl ls @ NL # r) = ls @ split_nl r"
proof (induction ls rule: join_nl.induct)
  case 1
  then show ?case by simp
next
  case (2 l)
  then show ?case by (simp add: split_nl_append)
next
  case (3 l m ls)
  then show ?case by (simp add: split_nl_append)
qed

lemma split_buildNewContent:
  assumes "NL \<notin> set delim" "\<forall>l\<in>set fm. NL \<notin> set l" "NL \<notin> set X"
  shows "split_nl (buildNewContent delim fm body X)
         = delim # newFm fm X @ delim # split_nl (join_nl body)"
proof -
  have "NL \<notin> set (lastmodLine X)"
    using assms(3) by (auto simp: lastmodLine_def NL_def DQ_def)
  with assms(2) set_newFm [of fm X] have "\<forall>l\<in>set (newFm fm X). NL \<notin> set l"
    by auto
  then show ?thesis
    using assms(1)
    by (simp add: buildNewContent_def split_nl_append split_join_append)
qed

lemma parse_buildNewContent:
  assumes "validHeader delim fm" "NL \<notin> set X" "delim \<noteq> lastmodLine X"
  shows "parseFrontmatter delim (buildNewContent delim fm body X) =
           \<lparr>currentLastmod = trim (removeQuotes X), fmLines = newFm fm X,
            bodyLines = split_nl (join_nl body), valid = True\<rparr>"
proof -
  from assms(1) have d: "NL \<notin> set delim" "trim delim = delim"
    and f: "\<forall>l\<in>set fm. NL \<notin> set l" "\<forall>l\<in>set fm. trim l \<noteq> delim"
    by (auto simp: validHeader_def)
  have s: "split_nl (buildNewContent delim fm body X)
         = [] @ delim # newFm fm X @ delim # split_nl (join_nl body)"
    using split_buildNewContent [OF d(1) f(1) assms(2)] by simp
  have n: "\<forall>l\<in>set (newFm fm X). trim l \<noteq> delim"
    using f(2) assms(3) set_newFm [of fm X] by auto
  show ?thesis
    using parse_of_lines(1) [OF s _ d(2) n d(2)] by (simp add: findLastmod_newFm)
qed

lemma set_trim: "set (trim s) \<subseteq> set s"
proof -
  have "set (dropWhile isSpace (rev (dropWhile isSpace s))) \<subseteq> set (rev (dropWhile isSpace s))"
    by (auto dest: set_dropWhileD)
  also have "\<dots> \<subseteq> set s"
    by (auto dest: set_dropWhileD)
  finally show ?thesis
    by (simp add: trim_def)
qed

lemma last_dropWhile_keep: "dropWhile P xs \<noteq> [] \<Longrightarrow> last (dropWhile P xs) = last xs"
  by (induction xs) auto

lemma trim_idem: "trim (trim s) = trim s"
proof (cases "trim s = []")
  case True
  moreover have "trim [] = []" by (simp add: trim_def)
  ultimately show ?thesis by simp
next
  case False
  let ?t = "dropWhile isSpace (rev (dropWhile isSpace s))"
  from False have t: "?t \<noteq> []"
    by (simp add: trim_def)
  have d: "dropWhile isSpace s \<noteq> []"
  proof
    assume "dropWhile isSpace s = []"
    with t show False by simp
  qed
  have "\<not> isSpace (hd ?t)"
    using t by (rule hd_dropWhile)
  then have l: "\<not> isSpace (last (trim s))"
    using t by (simp add: trim_def last_rev)
  have "last ?t = last (rev (dropWhile isSpace s))"
    using t by (rule last_dropWhile_keep)
  also have "\<dots> = hd (dropWhile isSpace s)"
    using d by (simp add: last_rev)
  finally have "\<not> isSpace (last ?t)"
    using hd_dropWhile [OF d] by simp
  then have "\<not> isSpace (hd (trim s))"
    using t by (simp add: trim_def hd_rev)
  with False l show ?thesis
    by (simp add: trim_id)
qed

lemma parse_valid_shape:
  assumes "valid (parseFrontmatter delim content)"
  obtains pre d1 fm d2 body where
    "split_nl content = pre @ d1 # fm @ d2 # body"
    "\<forall>l\<in>set pre. trim l \<noteq> delim" "trim d1 = delim"
    "\<forall>l\<in>set fm. trim l \<noteq> delim" "trim d2 = delim"
    "parseFrontmatter delim content =
       \<lparr>currentLastmod = findLastmod fm, fmLines = fm, bodyLines = body, valid = True\<rparr>"
    "fmIdx delim (split_nl content) ! 0 = int (length pre)"
    "NL \<notin> set delim" "\<forall>l\<in>set fm. NL \<notin> set l" "\<forall>l\<in>set body. NL \<notin> set l"
proof -
  from parse_valid_decomp [OF assms] obtain pre d1 fm d2 body where
    s: "split_nl content = pre @ d1 # fm @ d2 # body"
    and c: "\<forall>l\<in>set pre. trim l \<noteq> delim" "trim d1 = delim"
       "\<forall>l\<in>set fm. trim l \<noteq> delim" "trim d2 = delim"
    by blast
  have nl: "\<forall>l\<in>set (split_nl content). NL \<notin> set l"
    by (auto dest: split_nl_lines_no_NL)
  then have "NL \<notin> set d1"
    by (simp add: s)
  with set_trim [of d1] c(2) have "NL \<notin> set delim"
    by auto
  moreover from nl have "\<forall>l\<in>set fm. NL \<notin> set l" "\<forall>l\<in>set body. NL \<notin> set l"
    by (simp_all add: s)
  ultimately show ?thesis
    using that [OF s c parse_of_lines [OF s c]] by blast
qed

lemma parse_valid_validHeader:
  assumes "valid (parseFrontmatter delim content)"
  shows "validHeader delim (fmLines (parseFrontmatter delim content))"
proof -
  from assms obtain pre d1 fm d2 body where
    h: "trim d1 = delim" "\<forall>l\<in>set fm. trim l \<noteq> delim"
    "parseFrontmatter delim content =
       \<lparr>currentLastmod = findLastmod fm, fmLines = fm, bodyLines = body, valid = True\<rparr>"
    "NL \<notin> set delim" "\<forall>l\<in>set fm. NL \<notin> set l"
    by (rule parse_valid_shape)
  have "trim (trim d1) = trim d1"
    by (rule trim_idem)
  with h show ?thesis
    by (simp add: validHeader_def)
qed

text \<open>
  Claim C6 (as amended). For header lines that are valid for the delimiter, any body lines,
  and every value \<open>X\<close> without a line break, without a double quote and without white
  space at either end (and a delimiter that is not the rendered \<open>lastmod\<close> line itself),
  parsing the text rendered by \<open>buildNewContent\<close> is valid and gives \<open>currentLastmod = X\<close>.
  Without the condition on white space the round trip fails: the parser trims the value.
\<close>

theorem lastmod_roundtrip:
  assumes "validHeader delim fm" and "NL \<notin> set X" and "DQ \<notin> set X" and "trim X = X"
    and "delim \<noteq> lastmodLine X"
  shows "valid (parseFrontmatter delim (buildNewContent delim fm body X)) \<and>
         currentLastmod (parseFrontmatter delim (buildNewContent delim fm body X)) = X"
proof -
  from assms(3) have "removeQuotes X = X"
    by (auto simp: removeQuotes_def filter_id_conv)
  with assms(4) show ?thesis
    by (simp add: parse_buildNewContent [OF assms(1,2,5)])
qed

theorem lastmod_roundtrip_witness:
  "currentLastmod (parseFrontmatter ''---''
     (buildNewContent ''---'' [''title: x'', ''lastmod: 2024-01-01'', ''draft: false'']
        [''Hello'', ''---'', ''world''] ''2025-06-01T00:00:00+00:00''))
   = ''2025-06-01T00:00:00+00:00''"
  using lastmod_roundtrip [of "''---''" "[''title: x'', ''lastmod: 2024-01-01'', ''draft: false'']"
     "''2025-06-01T00:00:00+00:00''" "[''Hello'', ''---'', ''world'']"]
  by (simp add: validHeader_def trim_def isSpace_def NL_def DQ_def lastmodLine_def)

theorem lastmod_roundtrip_counterexample:
  "validHeader ''---'' [''title: x''] \<and> NL \<notin> set '' a'' \<and> DQ \<notin> set '' a'' \<and>
   currentLastmod (parseFrontmatter ''---''
     (buildNewContent ''---'' [''title: x''] [''body''] '' a'')) = ''a'' \<and>
   ''a'' \<noteq> '' a''"
proof -
  have v: "validHeader ''---'' [''title: x'']"
    by (simp add: validHeader_def trim_def isSpace_def NL_def)
  have "NL \<notin> set '' a''"
    by (simp add: NL_def)
  from parse_buildNewContent [OF v this, of "[''body'']"]
  have "currentLastmod (parseFrontmatter ''---''
        (buildNewContent ''---'' [''title: x''] [''body''] '' a'')) = ''a''"
    by (simp add: lastmodLine_def removeQuotes_def trim_def isSpace_def DQ_def)
  with v show ?thesis
    by (simp add: NL_def DQ_def)
qed

text \<open>
  Claim C7. For every valid descriptor, rendering keeps the header lines that do not start
  with \<open>lastmod:\<close> unchanged and in order; the rendered header is the parsed header with
  its first \<open>lastmod:\<close> line replaced by the new line, or with the new line appended
  when there was none; the output is the delimiter, the rendered header, the delimiter and
  the body lines joined by line breaks; and, line by line, the output consists of exactly
  these lines (a descriptor without body lines ends in one empty line).
\<close>

theorem render_preserves:
  assumes "valid (parseFrontmatter delim content)"
  shows "let p = parseFrontmatter delim content;
             hdr = newFm (fmLines p) X;
             out = buildNewContent delim (fmLines p) (bodyLines p) X
         in filter (\<lambda>l. \<not> startsWith l ''lastmod:'') hdr
              = filter (\<lambda>l. \<not> startsWith l ''lastmod:'') (fmLines p) \<and>
            hdr = (if \<exists>l\<in>set (fmLines p). startsWith l ''lastmod:''
                   then takeWhile (\<lambda>l. \<not> startsWith l ''lastmod:'') (fmLines p)
                          @ lastmodLine X
                          # tl (dropWhile (\<lambda>l. \<not> startsWith l ''lastmod:'') (fmLines p))
                   else fmLines p @ [lastmodLine X]) \<and>
            out = delim @ NL # join_nl hdr @ NL # delim @ NL # join_nl (bodyLines p) \<and>
            (NL \<notin> set X \<longrightarrow>
               split_nl out = delim # hdr @ delim
                 # (if bodyLines p = [] then [[]] else bodyLines p))"
proof -
  from assms obtain pre d1 fm d2 body where
    p: "parseFrontmatter delim content =
       \<lparr>currentLastmod = findLastmod fm, fmLines = fm, bodyLines = body, valid = True\<rparr>"
    and nl: "NL \<notin> set delim" "\<forall>l\<in>set fm. NL \<notin> set l" "\<forall>l\<in>set body. NL \<notin> set l"
    by (rule parse_valid_shape)
  have b: "split_nl (join_nl body) = (if body = [] then [[]] else body)"
    using nl(3) by (simp add: split_join)
  have "NL \<notin> set X \<longrightarrow>
          split_nl (buildNewContent delim fm body X)
          = delim # newFm fm X @ delim # (if body = [] then [[]] else body)"
    using split_buildNewContent [OF nl(1,2), of X body] b by simp
  moreover have "buildNewContent delim fm body X
      = delim @ NL # join_nl (newFm fm X) @ NL # delim @ NL # join_nl body"
    by (simp add: buildNewContent_def)
  ultimately show ?thesis
    unfolding Let_def p using newFm_filter [of fm X] newFm_eq [of fm X]
    by simp
qed

theorem render_preserves_witness:
  "split_nl (buildNewContent ''---'' [''title: x'', ''lastmod: 2024-01-01'', ''draft: false'']
               [''Hello'', ''world''] ''2025-06-01'')
   = [''---'', ''title: x'', ''lastmod: \"2025-06-01\"'', ''draft: false'', ''---'',
      ''Hello'', ''world'']"
proof -
  let ?c = "join_nl [''---'', ''title: x'', ''lastmod: 2024-01-01'', ''draft: false'', ''---'',
      ''Hello'', ''world'']"
  have s: "split_nl ?c = [] @ ''---'' # [''title: x'', ''lastmod: 2024-01-01'', ''draft: false'']
      @ ''---'' # [''Hello'', ''world'']"
    by (simp add: NL_def)
  have p: "parseFrontmatter ''---'' ?c =
     \<lparr>currentLastmod = findLastmod [''title: x'', ''lastmod: 2024-01-01'', ''draft: false''],
      fmLines = [''title: x'', ''lastmod: 2024-01-01'', ''draft: false''],
      bodyLines = [''Hello'', ''world''], valid = True\<rparr>"
    by (rule parse_of_lines(1) [OF s]) (simp_all add: trim_def isSpace_def)
  have v: "valid (parseFrontmatter ''---'' ?c)"
    by (simp only: p parsed.simps)
  show ?thesis
    using render_preserves [OF v, of "''2025-06-01''"] unfolding p Let_def
    by (simp add: NL_def newFm_def startsWith_def lastmodLine_def DQ_def)
qed

text \<open>
  Claim C9. For every valid descriptor whose first delimiter is not its first line, the
  lines before the first delimiter do not reach the output: parsing the descriptor without
  them gives the same result, hence the same rendered text, and the rendered text begins
  with the delimiter followed by a line break.
\<close>

theorem preamble_discarded:
  assumes "valid (parseFrontmatter delim content)"
    and "0 < fmIdx delim (split_nl content) ! 0"
  shows "let lines = split_nl content;
             k = nat (fmIdx delim lines ! 0);
             p = parseFrontmatter delim content;
             p' = parseFrontmatter delim (join_nl (drop k lines));
             out = buildNewContent delim (fmLines p) (bodyLines p) X
         in take k lines \<noteq> [] \<and>
            join_nl (take k lines @ drop k lines) = content \<and>
            p' = p \<and>
            buildNewContent delim (fmLines p') (bodyLines p') X = out \<and>
            take (Suc (length delim)) out = delim @ [NL]"
proof -
  from assms(1) obtain pre d1 fm d2 body where
    s: "split_nl content = pre @ d1 # fm @ d2 # body"
    and c: "\<forall>l\<in>set pre. trim l \<noteq> delim" "trim d1 = delim"
       "\<forall>l\<in>set fm. trim l \<noteq> delim" "trim d2 = delim"
    and p: "parseFrontmatter delim content =
       \<lparr>currentLastmod = findLastmod fm, fmLines = fm, bodyLines = body, valid = True\<rparr>"
    and k: "fmIdx delim (split_nl content) ! 0 = int (length pre)"
    by (rule parse_valid_shape)
  from assms(2) k have pre: "pre \<noteq> []"
    by simp
  have dr: "drop (length pre) (split_nl content) = d1 # fm @ d2 # body"
    "take (length pre) (split_nl content) = pre"
    by (simp_all add: s)
  have "\<forall>l\<in>set (d1 # fm @ d2 # body). NL \<notin> set l"
    using split_nl_lines_no_NL [of _ content] by (simp add: s)
  then have "split_nl (join_nl (d1 # fm @ d2 # body)) = [] @ d1 # fm @ d2 # body"
    using split_join [of "d1 # fm @ d2 # body"] by simp
  from parse_of_lines(1) [OF this _ c(2,3,4)]
  have p': "parseFrontmatter delim (join_nl (d1 # fm @ d2 # body)) =
       \<lparr>currentLastmod = findLastmod fm, fmLines = fm, bodyLines = body, valid = True\<rparr>"
    by simp
  have "take (Suc (length delim)) (buildNewContent delim fm body X) = delim @ [NL]"
    by (simp add: buildNewContent_def)
  moreover have "join_nl (pre @ d1 # fm @ d2 # body) = content"
    using join_split [of content] by (simp only: s)
  ultimately show ?thesis
    unfolding Let_def k using pre p p' dr by simp
qed

theorem preamble_discarded_witness:
  "parseFrontmatter ''---'' (join_nl [''---'', ''title: x'', ''---'', ''Hello''])
     = parseFrontmatter ''---''
         (join_nl [''<!-- note -->'', ''---'', ''title: x'', ''---'', ''Hello'']) \<and>
   take (Suc (length ''---'')) (buildNewContent ''---''
     (fmLines (parseFrontmatter ''---''
        (join_nl [''<!-- note -->'', ''---'', ''title: x'', ''---'', ''Hello''])))
     (bodyLines (parseFrontmatter ''---''
        (join_nl [''<!-- note -->'', ''---'', ''title: x'', ''---'', ''Hello''])))
     ''2025-06-01'') = ''---'' @ [NL]"
proof -
  let ?ls = "[''<!-- note -->'', ''---'', ''title: x'', ''---'', ''Hello'']"
  have "split_nl (join_nl ?ls) = ?ls"
    by (rule split_join) (simp_all add: NL_def)
  then have s: "split_nl (join_nl ?ls)
      = [''<!-- note -->''] @ ''---'' # [''title: x''] @ ''---'' # [''Hello'']"
    by simp
  have t: "\<forall>l\<in>set [''<!-- note -->'']. trim l \<noteq> ''---''" "trim ''---'' = ''---''"
    "\<forall>l\<in>set [''title: x'']. trim l \<noteq> ''---''"
    by (simp_all add: trim_def isSpace_def)
  have i: "fmIdx ''---'' (split_nl (join_nl ?ls)) ! 0 = 1"
    using parse_of_lines(2) [OF s t(1,2,3,2)] by simp
  have v: "valid (parseFrontmatter ''---'' (join_nl ?ls))"
    by (simp only: parse_of_lines(1) [OF s t(1,2,3,2)] parsed.simps)
  have pos: "0 < fmIdx ''---'' (split_nl (join_nl ?ls)) ! 0"
    by (simp only: i)
  have d: "drop (nat 1) (split_nl (join_nl ?ls)) = [''---'', ''title: x'', ''---'', ''Hello'']"
    by (simp only: s) simp
  note th = preamble_discarded [OF v pos, of "''2025-06-01''", unfolded Let_def i d]
  from th show ?thesis
    by blast
qed

subsection \<open>Effects of \<open>processBundle\<close> and of the loops\<close>

lemma cachePut_sel [simp]:
  "bundles (cachePut d i w) = AList.update d i (bundles w)"
  "cachePuts (cachePut d i w) = cachePuts w @ [(d, i)]"
  "cacheFile (cachePut d i w) = cacheFile w"
  "footer (cachePut d i w) = footer w"
  "files (cachePut d i w) = files w"
  "stats (cachePut d i w) = stats w"
  by (simp_all add: cachePut_def)

lemma inc_sel [simp]:
  "bundles (incNoImage w) = bundles w" "cachePuts (incNoImage w) = cachePuts w"
  "cacheFile (incNoImage w) = cacheFile w" "footer (incNoImage w) = footer w"
  "files (incNoImage w) = files w"
  "bundles (incUnchanged w) = bundles w" "cachePuts (incUnchanged w) = cachePuts w"
  "cacheFile (incUnchanged w) = cacheFile w" "footer (incUnchanged w) = footer w"
  "files (incUnchanged w) = files w"
  "bundles (incUpdated w) = bundles w" "cachePuts (incUpdated w) = cachePuts w"
  "cacheFile (incUpdated w) = cacheFile w" "footer (incUpdated w) = footer w"
  "files (incUpdated w) = files w"
  "bundles (incTotal w) = bundles w" "cachePuts (incTotal w) = cachePuts w"
  "cacheFile (incTotal w) = cacheFile w" "footer (incTotal w) = footer w"
  "files (incTotal w) = files w"
  by (simp_all add: incNoImage_def incUnchanged_def incUpdated_def incTotal_def)

lemma writeFile_sel [simp]:
  "bundles (writeFile f c w) = bundles w" "cachePuts (writeFile f c w) = cachePuts w"
  "cacheFile (writeFile f c w) = cacheFile w" "footer (writeFile f c w) = footer w"
  "stats (writeFile f c w) = stats w"
  "files (writeFile f c w) = (files w)(f := Some c)"
  by (simp_all add: writeFile_def)

lemma decideAndWrite_effect:
  "decideAndWrite E d f images p nl w = (r, w') \<Longrightarrow>
   cacheFile w' = cacheFile w \<and> footer w' = footer w \<and>
   (case r of
      Some e \<Rightarrow> bundles w' = bundles w \<and> cachePuts w' = cachePuts w
    | None \<Rightarrow> bundles w' = AList.update d images (bundles w) \<and>
              cachePuts w' = cachePuts w @ [(d, images)])"
  by (auto simp: decideAndWrite_def Let_def split: if_splits)

lemma keys_empty [simp]: "keys xs = [] \<longleftrightarrow> xs = []"
  by (simp add: keys_def)

lemma processBundle_v2_effect:
  "processBundle_v2 E d w = (r, w') \<Longrightarrow> putEffect E d w r w'"
  unfolding processBundle_v2_def putEffect_def Let_def
  by (auto split: if_splits sum.splits option.splits
      dest!: decideAndWrite_effect)


lemma dirLoop_rel:
  assumes refl: "\<And>w. R w w"
    and trans: "\<And>a b c. R a b \<Longrightarrow> R b c \<Longrightarrow> R a c"
    and inc: "\<And>w. R w (incTotal w)"
    and step: "\<And>dir w r w'. dir \<in> set dirs \<Longrightarrow> statSync E dir = Some IsDirectory \<Longrightarrow>
                 pb E (clean dir) w = (r, w') \<Longrightarrow> R w w'"
  shows "dirLoop pb E dirs w = (r, w') \<Longrightarrow> R w w'"
  using step
proof (induction dirs arbitrary: w)
  case Nil
  then show ?case by (simp add: refl)
next
  case (Cons dir dirs)
  have IH: "\<And>w. dirLoop pb E dirs w = (r, w') \<Longrightarrow> R w w'"
    by (rule Cons.IH) (auto intro: Cons.prems(2))
  show ?case
  proof (cases "statSync E dir = Some IsDirectory")
    case False
    with Cons.prems(1) have "dirLoop pb E dirs w = (r, w')"
      by (auto split: option.splits stat_kind.splits)
    then show ?thesis by (rule IH)
  next
    case True
    obtain r1 w1 where p: "pb E (clean dir) (incTotal w) = (r1, w1)"
      by (cases "pb E (clean dir) (incTotal w)")
    have "R (incTotal w) w1"
      using Cons.prems(2) [OF _ True p] by simp
    with inc [of w] have R1: "R w w1"
      by (rule trans)
    show ?thesis
    proof (cases r1)
      case None
      with Cons.prems(1) True p have "dirLoop pb E dirs w1 = (r, w')"
        by simp
      from R1 IH [OF this] show ?thesis by (rule trans)
    next
      case (Some e)
      with Cons.prems(1) True p have "w' = w1"
        by simp
      with R1 show ?thesis by simp
    qed
  qed
qed

lemma patternLoop_rel:
  assumes refl: "\<And>w. R w w"
    and trans: "\<And>a b c. R a b \<Longrightarrow> R b c \<Longrightarrow> R a c"
    and inc: "\<And>w. R w (incTotal w)"
    and step: "\<And>dir w r w'. dir \<in> set (concat (map (glob E) patterns)) \<Longrightarrow>
                 statSync E dir = Some IsDirectory \<Longrightarrow>
                 pb E (clean dir) w = (r, w') \<Longrightarrow> R w w'"
  shows "patternLoop pb E patterns w = (r, w') \<Longrightarrow> R w w'"
  using step
proof (induction patterns arbitrary: w)
  case Nil
  then show ?case by (simp add: refl)
next
  case (Cons pattern patterns)
  obtain r1 w1 where d: "dirLoop pb E (glob E pattern) w = (r1, w1)"
    by (cases "dirLoop pb E (glob E pattern) w")
  have R1: "R w w1"
  proof (rule dirLoop_rel [where R = R, OF refl trans inc _ d])
    fix dir w r w'
    assume "dir \<in> set (glob E pattern)"
      and s: "statSync E dir = Some IsDirectory" "pb E (clean dir) w = (r, w')"
    then have "dir \<in> set (concat (map (glob E) (pattern # patterns)))"
      by simp
    then show "R w w'" using s by (rule Cons.prems(2))
  qed
  show ?case
  proof (cases r1)
    case None
    with Cons.prems(1) d have "patternLoop pb E patterns w1 = (r, w')"
      by simp
    then have "R w1 w'"
    proof (rule Cons.IH)
      fix dir w r w'
      assume "dir \<in> set (concat (map (glob E) patterns))"
        and s: "statSync E dir = Some IsDirectory" "pb E (clean dir) w = (r, w')"
      then have "dir \<in> set (concat (map (glob E) (pattern # patterns)))"
        by simp
      then show "R w w'" using s by (rule Cons.prems(2))
    qed
    with R1 show ?thesis by (rule trans)
  next
    case (Some e)
    with Cons.prems(1) d have "w' = w1"
      by simp
    with R1 show ?thesis by simp
  qed
qed

text \<open>What a run of the loops keeps: the cache file and the footer.\<close>

lemma patternLoop_keeps:
  assumes eff: "\<And>d w r w'. pb E d w = (r, w') \<Longrightarrow> putEffect E d w r w'"
    and run: "patternLoop pb E patterns w = (r, w')"
  shows "cacheFile w' = cacheFile w \<and> footer w' = footer w"
proof (rule patternLoop_rel [where R = "\<lambda>a b. cacheFile b = cacheFile a \<and> footer b = footer a",
        OF _ _ _ _ run])
  fix dir w r w'
  assume "pb E (clean dir) w = (r, w')"
  from eff [OF this] show "cacheFile w' = cacheFile w \<and> footer w' = footer w"
    by (simp add: putEffect_def)
qed simp_all

text \<open>Entries of bundles that are not processed stay, and no key is lost.\<close>

lemma putEffect_others:
  assumes "putEffect E d w r w'"
  shows "(\<forall>k. k \<noteq> d \<longrightarrow> map_of (bundles w') k = map_of (bundles w) k) \<and>
         fst ` set (bundles w) \<subseteq> fst ` set (bundles w')"
proof (cases r)
  case (Some e)
  with assms show ?thesis by (simp add: putEffect_def)
next
  case None
  show ?thesis
  proof (cases "existsSync E (pathJoin d ''index.md'')")
    case False
    with None assms show ?thesis by (simp add: putEffect_def)
  next
    case True
    with None assms obtain images where
      "bundles w' = AList.update d images (bundles w)"
      by (auto simp: putEffect_def split: sum.splits)
    then show ?thesis
      by (auto simp: update_conv' dom_update)
  qed
qed

lemma othersKept_refl: "othersKept D w w"
  by (simp add: othersKept_def)

lemma othersKept_trans:
  assumes "othersKept D a b" and "othersKept D b c"
  shows "othersKept D a c"
  unfolding othersKept_def
proof (intro conjI allI impI)
  fix k
  assume "k \<notin> D"
  with assms show "map_of (bundles c) k = map_of (bundles a) k"
    by (simp add: othersKept_def)
next
  from assms show "fst ` set (bundles a) \<subseteq> fst ` set (bundles c)"
    unfolding othersKept_def by (elim conjE) (rule subset_trans)
qed

lemma othersKept_inc: "othersKept D w (incTotal w)"
  by (simp add: othersKept_def)

lemma patternLoop_others:
  assumes eff: "\<And>d w r w'. pb E d w = (r, w') \<Longrightarrow> putEffect E d w r w'"
    and run: "patternLoop pb E patterns w = (r, w')"
    and D: "\<And>dir. dir \<in> set (concat (map (glob E) patterns)) \<Longrightarrow>
               statSync E dir = Some IsDirectory \<Longrightarrow> clean dir \<in> D"
  shows "othersKept D w w'"
proof (rule patternLoop_rel [where R = "othersKept D", OF othersKept_refl othersKept_trans
      othersKept_inc _ run])
  fix dir w r w'
  assume d: "dir \<in> set (concat (map (glob E) patterns))" "statSync E dir = Some IsDirectory"
    and p: "pb E (clean dir) w = (r, w')"
  from d have "clean dir \<in> D" by (rule D)
  note o = putEffect_others [OF eff [OF p]]
  show "othersKept D w w'"
    unfolding othersKept_def
  proof (intro conjI allI impI)
    fix k
    assume "k \<notin> D"
    with \<open>clean dir \<in> D\<close> have "k \<noteq> clean dir" by auto
    with o show "map_of (bundles w') k = map_of (bundles w) k" by simp
  next
    from o show "fst ` set (bundles w) \<subseteq> fst ` set (bundles w')" by (rule conjunct2)
  qed
qed



lemma entryCurrent_inc [simp]: "entryCurrent E k (incTotal w) = entryCurrent E k w"
  by (simp add: entryCurrent_def split: sum.splits)





lemma set_processedDirs:
  "set (processedDirs E)
   = clean ` {dir \<in> set (concat (map (glob E) (TARGET_DIRS E))). statSync E dir = Some IsDirectory}"
  by (auto simp: processedDirs_def)

lemma stats_upd_sel [simp]:
  "bundles (w\<lparr>stats := s\<rparr>) = bundles w" "cacheFile (w\<lparr>stats := s\<rparr>) = cacheFile w"
  "footer (w\<lparr>stats := s\<rparr>) = footer w" "cachePuts (w\<lparr>stats := s\<rparr>) = cachePuts w"
  by simp_all

lemma persist_sel [simp]:
  "cacheFile (persist v w) = CacheJson v (Some (bundles w))" "bundles (persist v w) = bundles w"
  "footer (persist v w) = footer w" "stats (persist v w) = stats w"
  "cacheFile (printFooter w) = cacheFile w" "bundles (printFooter w) = bundles w"
  "footer (printFooter w) = Some (stats w)"
  by (simp_all add: persist_def printFooter_def)



lemma main_v2_persists:
  assumes "main_v2 E w = (None, w')"
  shows "cacheFile w' = CacheJson 2 (Some (bundles w'))"
  using assms
  by (auto simp: main_v2_def split: prod.splits option.splits if_splits)

lemma main_v2_error:
  assumes "main_v2 E w = (Some e, w')"
  shows "cacheFile w' = cacheFile w \<and> footer w' = footer w"
proof -
  obtain r w1 where l: "patternLoop processBundle_v2 E (TARGET_DIRS E) (w\<lparr>stats := zeroStats\<rparr>) = (r, w1)"
    by (cases "patternLoop processBundle_v2 E (TARGET_DIRS E) (w\<lparr>stats := zeroStats\<rparr>)")
  from patternLoop_keeps [OF processBundle_v2_effect l]
  have k: "cacheFile w1 = cacheFile w \<and> footer w1 = footer w"
    by simp
  from assms l have "w' = w1"
    by (auto simp: main_v2_def split: option.splits if_splits)
  with k show ?thesis by simp
qed

lemma scan_unlistable:
  "readdir E d = None \<Longrightarrow> scanImagesForBundle E d m = Inl (ReaddirError d)"
  by (simp add: scanImagesForBundle_def getImageFiles_def)

subsection \<open>Runs\<close>




lemma dirLoop_append:
  "dirLoop pb E (xs @ ys) w =
     (case dirLoop pb E xs w of (Some e, w') \<Rightarrow> (Some e, w') | (None, w') \<Rightarrow> dirLoop pb E ys w')"
  by (induction xs arbitrary: w) (auto split: option.splits stat_kind.splits prod.splits)

lemma patternLoop_flat:
  "patternLoop pb E patterns w = dirLoop pb E (concat (map (glob E) patterns)) w"
  by (induction patterns arbitrary: w)
     (auto simp: dirLoop_append split: option.splits prod.splits)

lemma scan_fold:
  "map_of (fold (\<lambda>rel result. case statImage E rel of None \<Rightarrow> result
                                | Some st \<Rightarrow> AList.update rel st result) fs acc) rel
   = (if rel \<in> set fs \<and> statImage E rel \<noteq> None then statImage E rel else map_of acc rel)"
  by (induction fs arbitrary: acc) (auto simp: update_conv' split: option.splits)

lemma scan_omits:
  assumes "getImageFiles E d m = Inr fs"
  shows "\<exists>images. scanImagesForBundle E d m = Inr images \<and>
           (\<forall>rel. map_of images rel = (if rel \<in> set fs then statImage E rel else None))"
  using assms by (auto simp: scanImagesForBundle_def scan_fold)

lemma main_v2_rejects:
  assumes split: "concat (map (glob E) (TARGET_DIRS E)) = pre @ dir # post"
    and pre: "dirLoop processBundle_v2 E pre (w\<lparr>stats := zeroStats\<rparr>) = (None, w1)"
    and dir: "statSync E dir = Some IsDirectory"
    and rej: "processBundle_v2 E (clean dir) (incTotal w1) = (Some e, w2)"
  shows "main_v2 E w = (Some e, w2)"
proof -
  have "patternLoop processBundle_v2 E (TARGET_DIRS E) (w\<lparr>stats := zeroStats\<rparr>)
        = dirLoop processBundle_v2 E (pre @ dir # post) (w\<lparr>stats := zeroStats\<rparr>)"
    by (simp only: patternLoop_flat split)
  also have "\<dots> = dirLoop processBundle_v2 E (dir # post) w1"
    by (simp only: dirLoop_append pre) simp
  also have "\<dots> = (Some e, w2)"
    using dir rej by simp
  finally show ?thesis
    by (simp add: main_v2_def)
qed

text \<open>
  Claim C2 (as amended). Isolated are: a candidate that \<open>statSync\<close> rejects or that is
  not a directory, which is skipped while the loop goes on; an image file whose stat fails
  during the scan, which is left out of the inventory while the scan succeeds with the
  stat data of every other file found; and a bundle without a descriptor, which returns at
  once. Not isolated are, for a bundle with a descriptor: a directory that cannot be
  listed, and, when the scan finds at least one image, a descriptor that cannot be read,
  or one that cannot be written when an update is due and \<open>DRY_RUN\<close> is not set; each makes
  \<open>processBundle\<close> reject. Whenever the candidates before a bundle complete and that bundle
  rejects, \<open>main\<close> ends with the same error in the state of that moment, so no later
  candidate is processed, and the cache file and the footer are as before the run. Every
  run of \<open>main\<close> that ends in a rejection has left the cache file and the footer as they
  were.
\<close>

theorem bundle_error_aborts_run:
  "(statSync E dir \<noteq> Some IsDirectory \<longrightarrow>
      dirLoop processBundle_v2 E (dir # dirs) w = dirLoop processBundle_v2 E dirs w) \<and>
   (getImageFiles E d m = Inr fs \<longrightarrow>
      (\<exists>found. scanImagesForBundle E d m = Inr found \<and>
         (\<forall>rel. map_of found rel = (if rel \<in> set fs then statImage E rel else None)))) \<and>
   (\<not> existsSync E (pathJoin d ''index.md'') \<longrightarrow> processBundle_v2 E d w = (None, w)) \<and>
   (existsSync E (pathJoin d ''index.md'') \<and> readdir E d = None \<longrightarrow>
      processBundle_v2 E d w = (Some (ReaddirError d), w)) \<and>
   (existsSync E (pathJoin d ''index.md'') \<and>
    scanImagesForBundle E d (MAXDEPTH E) = Inr images \<and> images \<noteq> [] \<and>
    files w (pathJoin d ''index.md'') = None \<longrightarrow>
      fst (processBundle_v2 E d w) = Some (ReadFileError (pathJoin d ''index.md''))) \<and>
   (existsSync E (pathJoin d ''index.md'') \<and>
    scanImagesForBundle E d (MAXDEPTH E) = Inr images \<and> images \<noteq> [] \<and>
    files w (pathJoin d ''index.md'') = Some raw \<and>
    valid (parseFrontmatter (FRONTMATTER_DELIM E) raw) \<and>
    isNewerISO (formatLocalISO (localDate E (maxMtime images)))
      (currentLastmod (parseFrontmatter (FRONTMATTER_DELIM E) raw)) \<and>
    \<not> DRY_RUN E \<and> \<not> writable E (pathJoin d ''index.md'') \<longrightarrow>
      fst (processBundle_v2 E d w) = Some (WriteFileError (pathJoin d ''index.md''))) \<and>
   (concat (map (glob E) (TARGET_DIRS E)) = pre @ dir # post \<and>
    dirLoop processBundle_v2 E pre (w\<lparr>stats := zeroStats\<rparr>) = (None, w1) \<and>
    statSync E dir = Some IsDirectory \<and>
    processBundle_v2 E (clean dir) (incTotal w1) = (Some e, w2) \<longrightarrow>
      main_v2 E w = (Some e, w2) \<and> cacheFile w2 = cacheFile w \<and> footer w2 = footer w) \<and>
   (fst (main_v2 E w) = Some e \<longrightarrow>
      cacheFile (snd (main_v2 E w)) = cacheFile w \<and> footer (snd (main_v2 E w)) = footer w)"
proof (intro conjI impI)
  assume "statSync E dir \<noteq> Some IsDirectory"
  then show "dirLoop processBundle_v2 E (dir # dirs) w = dirLoop processBundle_v2 E dirs w"
    by (auto split: option.splits stat_kind.splits)
next
  assume "getImageFiles E d m = Inr fs"
  then show "\<exists>found. scanImagesForBundle E d m = Inr found \<and>
         (\<forall>rel. map_of found rel = (if rel \<in> set fs then statImage E rel else None))"
    by (rule scan_omits)
next
  assume "\<not> existsSync E (pathJoin d ''index.md'')"
  then show "processBundle_v2 E d w = (None, w)"
    by (simp add: processBundle_v2_def)
next
  assume "existsSync E (pathJoin d ''index.md'') \<and> readdir E d = None"
  then show "processBundle_v2 E d w = (Some (ReaddirError d), w)"
    by (simp add: processBundle_v2_def scan_unlistable)
next
  assume "existsSync E (pathJoin d ''index.md'') \<and>
    scanImagesForBundle E d (MAXDEPTH E) = Inr images \<and> images \<noteq> [] \<and>
    files w (pathJoin d ''index.md'') = None"
  then show "fst (processBundle_v2 E d w) = Some (ReadFileError (pathJoin d ''index.md''))"
    by (simp add: processBundle_v2_def Let_def)
next
  assume "existsSync E (pathJoin d ''index.md'') \<and>
    scanImagesForBundle E d (MAXDEPTH E) = Inr images \<and> images \<noteq> [] \<and>
    files w (pathJoin d ''index.md'') = Some raw \<and>
    valid (parseFrontmatter (FRONTMATTER_DELIM E) raw) \<and>
    isNewerISO (formatLocalISO (localDate E (maxMtime images)))
      (currentLastmod (parseFrontmatter (FRONTMATTER_DELIM E) raw)) \<and>
    \<not> DRY_RUN E \<and> \<not> writable E (pathJoin d ''index.md'')"
  then show "fst (processBundle_v2 E d w) = Some (WriteFileError (pathJoin d ''index.md''))"
    by (simp add: processBundle_v2_def Let_def decideAndWrite_def)
next
  assume a: "concat (map (glob E) (TARGET_DIRS E)) = pre @ dir # post \<and>
    dirLoop processBundle_v2 E pre (w\<lparr>stats := zeroStats\<rparr>) = (None, w1) \<and>
    statSync E dir = Some IsDirectory \<and>
    processBundle_v2 E (clean dir) (incTotal w1) = (Some e, w2)"
  then have m: "main_v2 E w = (Some e, w2)"
    by (intro main_v2_rejects) blast+
  then show "main_v2 E w = (Some e, w2)" .
  from main_v2_error [OF m] show "cacheFile w2 = cacheFile w" "footer w2 = footer w"
    by simp_all
next
  assume "fst (main_v2 E w) = Some e"
  then have "main_v2 E w = (Some e, snd (main_v2 E w))"
    by (simp add: prod_eq_iff)
  then show "cacheFile (snd (main_v2 E w)) = cacheFile w"
    "footer (snd (main_v2 E w)) = footer w"
    by (simp_all add: main_v2_error)
qed

theorem bundle_error_aborts_run_witness:
  "main_v2 (demoEnv False None (demoImages (1000::int) 2000))
     (start 2 (demoFiles (Some demoA)) Absent)
   = (Some (ReaddirError ''g/a''), incTotal (start 2 (demoFiles (Some demoA)) Absent))"
proof -
  let ?E = "demoEnv False None (demoImages (1000::int) 2000)"
  let ?w = "start 2 (demoFiles (Some demoA)) Absent :: int world"
  have z: "?w\<lparr>stats := zeroStats\<rparr> = ?w"
    by (simp add: start_def)
  have s: "concat (map (glob ?E) (TARGET_DIRS ?E)) = [] @ ''g/a/'' # [''g/b/'']"
    by (simp add: demoEnv_def TARGET_DIRS_def)
  have p: "dirLoop processBundle_v2 ?E [] (?w\<lparr>stats := zeroStats\<rparr>) = (None, ?w)"
    by (simp add: z)
  have d: "statSync ?E ''g/a/'' = Some IsDirectory"
    by (simp add: demoEnv_def)
  have c: "clean ''g/a/'' = ''g/a''"
    by (simp add: clean_def endsWith_def)
  have "existsSync ?E (pathJoin ''g/a'' ''index.md'') \<and> readdir ?E ''g/a'' = None"
    by (simp add: demoEnv_def pathJoin_def)
  with bundle_error_aborts_run [where E = ?E and d = "''g/a''" and w = "incTotal ?w"]
  have r: "processBundle_v2 ?E (clean ''g/a/'') (incTotal ?w)
      = (Some (ReaddirError ''g/a''), incTotal ?w)"
    unfolding c by blast
  from bundle_error_aborts_run [where E = ?E and w = ?w and pre = "[]" and dir = "''g/a/''"
      and post = "[''g/b/'']" and ?w1.0 = ?w and e = "ReaddirError ''g/a''"
      and ?w2.0 = "incTotal ?w"] s p d r
  show ?thesis
    by blast
qed

theorem bundle_error_aborts_run_counterexample:
  "statSync (demoEnv False None (demoImages (1000::int) 2000)) ''g/b/'' = Some IsDirectory \<and>
   fst (processBundle_v2 (demoEnv False None (demoImages (1000::int) 2000)) ''g/b''
          (start 2 (demoFiles (Some demoA)) Absent)) = None \<and>
   fst (main_v2 (demoEnv False None (demoImages (1000::int) 2000))
          (start 2 (demoFiles (Some demoA)) Absent)) = Some (ReaddirError ''g/a'') \<and>
   cacheFile (snd (main_v2 (demoEnv False None (demoImages (1000::int) 2000))
                     (start 2 (demoFiles (Some demoA)) Absent))) = Absent \<and>
   footer (snd (main_v2 (demoEnv False None (demoImages (1000::int) 2000))
                  (start 2 (demoFiles (Some demoA)) Absent))) = None \<and>
   bundles (snd (main_v2 (demoEnv False None (demoImages (1000::int) 2000))
                   (start 2 (demoFiles (Some demoA)) Absent))) = [] \<and>
   totalBundles (stats (snd (main_v2 (demoEnv False None (demoImages (1000::int) 2000))
                   (start 2 (demoFiles (Some demoA)) Absent)))) = 1"
  by code_simp

text \<open>
  Claim C3 (as amended). A bundle without a descriptor leaves the state as it is. For a
  bundle with a descriptor whose processing returns (no images, unchanged, descriptor
  that does not parse, or updated), the cache entry of the bundle is assigned exactly once,
  with the inventory scanned in this call. When processing rejects (the directory is not
  listable, or the descriptor cannot be read or written), the cache is not assigned.
\<close>

theorem cache_put_once:
  "(\<not> existsSync E (pathJoin d ''index.md'') \<longrightarrow> processBundle_v2 E d w = (None, w)) \<and>
   (existsSync E (pathJoin d ''index.md'') \<and> fst (processBundle_v2 E d w) = None \<longrightarrow>
      (\<exists>images. scanImagesForBundle E d (MAXDEPTH E) = Inr images \<and>
         cachePuts (snd (processBundle_v2 E d w)) = cachePuts w @ [(d, images)] \<and>
         bundles (snd (processBundle_v2 E d w)) = AList.update d images (bundles w))) \<and>
   (fst (processBundle_v2 E d w) = Some e \<longrightarrow>
      cachePuts (snd (processBundle_v2 E d w)) = cachePuts w \<and>
      bundles (snd (processBundle_v2 E d w)) = bundles w)"
proof -
  have "putEffect E d w (fst (processBundle_v2 E d w)) (snd (processBundle_v2 E d w))"
    by (rule processBundle_v2_effect) simp
  moreover have "\<not> existsSync E (pathJoin d ''index.md'') \<longrightarrow> processBundle_v2 E d w = (None, w)"
    by (simp add: processBundle_v2_def)
  ultimately show ?thesis
    by (auto simp: putEffect_def split: sum.splits option.splits)
qed

theorem cache_put_once_witness:
  "cachePuts (snd (processBundle_v2 (demoEnv False (Some [FileEntry ''x.jpg'']) (demoImages (1000::int) 2000))
                     ''g/a'' (start 2 (demoFiles (Some demoA)) Absent)))
   = [(''g/a'', [(''g/a/x.jpg'', \<lparr>fingerprint = 1000, size_bytes = 100\<rparr>)])]"
proof -
  let ?E = "demoEnv False (Some [FileEntry ''x.jpg'']) (demoImages (1000::int) 2000)"
  let ?w = "start 2 (demoFiles (Some demoA)) Absent :: int world"
  have h: "existsSync ?E (pathJoin ''g/a'' ''index.md'') \<and> fst (processBundle_v2 ?E ''g/a'' ?w) = None"
    by code_simp
  have s: "scanImagesForBundle ?E ''g/a'' (MAXDEPTH ?E)
      = Inr [(''g/a/x.jpg'', \<lparr>fingerprint = 1000, size_bytes = 100\<rparr>)]"
    by code_simp
  have c: "cachePuts ?w = []"
    by (simp add: start_def)
  from cache_put_once [of ?E "''g/a''" ?w, THEN conjunct2, THEN conjunct1] h
  obtain images where "scanImagesForBundle ?E ''g/a'' (MAXDEPTH ?E) = Inr images"
    "cachePuts (snd (processBundle_v2 ?E ''g/a'' ?w)) = cachePuts ?w @ [(''g/a'', images)]"
    by blast
  with s c show ?thesis
    by simp
qed

theorem cache_put_once_counterexample:
  "existsSync (demoEnv False (Some [FileEntry ''x.jpg'']) (demoImages (1000::int) 2000))
     (pathJoin ''g/a'' ''index.md'') \<and>
   scanImagesForBundle (demoEnv False (Some [FileEntry ''x.jpg'']) (demoImages (1000::int) 2000)) ''g/a''
     (MAXDEPTH (demoEnv False (Some [FileEntry ''x.jpg'']) (demoImages (1000::int) 2000)))
     = Inr [(''g/a/x.jpg'', \<lparr>fingerprint = 1000, size_bytes = 100\<rparr>)] \<and>
   demoFiles None (pathJoin ''g/a'' ''index.md'') = None \<and>
   fst (processBundle_v2 (demoEnv False (Some [FileEntry ''x.jpg'']) (demoImages (1000::int) 2000)) ''g/a''
          (start 2 (demoFiles None) Absent)) = Some (ReadFileError ''g/a/index.md'') \<and>
   cachePuts (snd (processBundle_v2 (demoEnv False (Some [FileEntry ''x.jpg'']) (demoImages (1000::int) 2000))
                     ''g/a'' (start 2 (demoFiles None) Absent))) = [] \<and>
   bundles (snd (processBundle_v2 (demoEnv False (Some [FileEntry ''x.jpg'']) (demoImages (1000::int) 2000))
                     ''g/a'' (start 2 (demoFiles None) Absent))) = []"
  by code_simp

text \<open>
  Claim C10. For every run of the timestamp generation that completes, started from the
  cache loaded from the cache file: the file written at the end holds the cache in memory;
  every key that is not the identifier of a bundle processed in this run maps to what it
  mapped to in the loaded cache; and every key of the loaded cache is a key of the
  written cache.
\<close>

theorem cache_entries_kept:
  assumes "fst (main_v2 E (start 2 fs cf)) = None"
  shows "cacheFile (snd (main_v2 E (start 2 fs cf)))
           = CacheJson 2 (Some (bundles (snd (main_v2 E (start 2 fs cf))))) \<and>
         (\<forall>k. k \<notin> set (processedDirs E) \<longrightarrow>
              map_of (bundles (snd (main_v2 E (start 2 fs cf)))) k = map_of (loadCache 2 cf) k) \<and>
         fst ` set (loadCache 2 cf) \<subseteq> fst ` set (bundles (snd (main_v2 E (start 2 fs cf))))"
proof -
  let ?w = "start 2 fs cf"
  obtain r w1 where l: "patternLoop processBundle_v2 E (TARGET_DIRS E) (?w\<lparr>stats := zeroStats\<rparr>) = (r, w1)"
    by (cases "patternLoop processBundle_v2 E (TARGET_DIRS E) (?w\<lparr>stats := zeroStats\<rparr>)")
  from assms have m: "main_v2 E ?w = (None, snd (main_v2 E ?w))"
    by (simp add: prod_eq_iff)
  with l have b: "bundles (snd (main_v2 E ?w)) = bundles w1"
    by (auto simp: main_v2_def split: option.splits if_splits)
  have "othersKept (set (processedDirs E)) (?w\<lparr>stats := zeroStats\<rparr>) w1"
    by (rule patternLoop_others [OF processBundle_v2_effect l]) (auto simp: set_processedDirs)
  then have "(\<forall>k. k \<notin> set (processedDirs E) \<longrightarrow> map_of (bundles w1) k = map_of (loadCache 2 cf) k)
      \<and> fst ` set (loadCache 2 cf) \<subseteq> fst ` set (bundles w1)"
    by (simp add: othersKept_def start_def)
  with main_v2_persists [OF m] b show ?thesis
    by simp
qed

theorem cache_entries_kept_witness:
  "map_of (bundles (snd (main_v2 (demoEnv False (Some [FileEntry ''x.jpg'']) (demoImages (1000::int) 2000))
       (start 2 (demoFiles (Some demoA))
          (CacheJson 2 (Some [(''g/old'', [(''g/old/z.jpg'', \<lparr>fingerprint = 5, size_bytes = 7\<rparr>)])]))))))
     ''g/old''
   = Some [(''g/old/z.jpg'', \<lparr>fingerprint = 5, size_bytes = 7\<rparr>)]"
proof -
  let ?E = "demoEnv False (Some [FileEntry ''x.jpg'']) (demoImages (1000::int) 2000)"
  let ?cf = "CacheJson 2 (Some [(''g/old'', [(''g/old/z.jpg'', \<lparr>fingerprint = 5::int, size_bytes = 7\<rparr>)])])"
  have h: "fst (main_v2 ?E (start 2 (demoFiles (Some demoA)) ?cf)) = None"
    by code_simp
  have n: "''g/old'' \<notin> set (processedDirs ?E)"
    by code_simp
  have l: "map_of (loadCache 2 ?cf) ''g/old''
      = Some [(''g/old/z.jpg'', \<lparr>fingerprint = 5, size_bytes = 7\<rparr>)]"
    by (simp add: loadCache_def)
  from cache_entries_kept [OF h, THEN conjunct2, THEN conjunct1] n
  have "map_of (bundles (snd (main_v2 ?E (start 2 (demoFiles (Some demoA)) ?cf)))) ''g/old''
      = map_of (loadCache 2 ?cf) ''g/old''"
    by blast
  then show ?thesis
    using l by (rule trans)
qed

subsection \<open>Timestamps\<close>

lemma length_digitsW [simp]: "length (digitsW k n) = k"
  by (induction k arbitrary: n) auto

























































subsection \<open>The decision of the timestamp generation\<close>

lemma fold_max_step:
  "fold (\<lambda>key maxMtimeMs.
           case map_of images key of
             None \<Rightarrow> maxMtimeMs
           | Some e \<Rightarrow> if fingerprint e > maxMtimeMs then fingerprint e else maxMtimeMs) ks m
   = Max (insert m {fingerprint e |e k. k \<in> set ks \<and> map_of images k = Some e})"
  for m :: int
proof (induction ks arbitrary: m)
  case Nil
  then show ?case by simp
next
  case (Cons k ks)
  let ?S = "{fingerprint e |e k. k \<in> set ks \<and> map_of images k = Some e}"
  have fin: "finite ?S"
  proof -
    have "?S \<subseteq> (\<lambda>k. fingerprint (the (map_of images k))) ` set ks"
      by force
    then show ?thesis by (rule finite_subset) simp
  qed
  show ?case
  proof (cases "map_of images k")
    case None
    then have "{fingerprint e |e k'. k' \<in> set (k # ks) \<and> map_of images k' = Some e} = ?S"
      by auto
    with None Cons.IH [of m] show ?thesis by simp
  next
    case (Some e)
    then have s: "{fingerprint e |e k'. k' \<in> set (k # ks) \<and> map_of images k' = Some e}
        = insert (fingerprint e) ?S"
      by auto
    have "Max (insert (max m (fingerprint e)) ?S) = Max (insert m (insert (fingerprint e) ?S))"
    proof (cases "?S = {}")
      case True
      show ?thesis unfolding True by (simp add: max.commute)
    next
      case False
      with fin show ?thesis by (simp add: max.assoc)
    qed
    moreover have "(if fingerprint e > m then fingerprint e else m) = max m (fingerprint e)"
      by (simp add: max_def)
    ultimately show ?thesis
      unfolding s using Some Cons.IH [of "max m (fingerprint e)"] by (simp del: Max_insert)
  qed
qed

text \<open>The value from which the candidate is formatted is the largest modification time
  among the images and zero.\<close>

lemma maxMtime_Max: "maxMtime images = Max (insert 0 (fingerprint ` ran (map_of images)))"
proof -
  have "{fingerprint e |e k. k \<in> set (keys images) \<and> map_of images k = Some e}
        = fingerprint ` ran (map_of images)" (is "?L = ?R")
  proof (intro set_eqI iffI)
    fix x
    assume "x \<in> ?L"
    then obtain e k where "x = fingerprint e" "map_of images k = Some e"
      by blast
    then show "x \<in> ?R"
      by (auto simp: ran_def)
  next
    fix x
    assume "x \<in> ?R"
    then obtain e k where e: "x = fingerprint e" "map_of images k = Some e"
      by (auto simp: ran_def)
    then have "(k, e) \<in> set images"
      by (simp add: map_of_SomeD)
    then have "k \<in> set (keys images)"
      by (force simp: keys_def)
    with e show "x \<in> ?L"
      by blast
  qed
  then show ?thesis
    by (simp add: maxMtime_def fold_max_step)
qed

text \<open>The decision of the timestamp generation for a bundle with images and a valid
  descriptor: updated if and only if the current value is empty or less than the
  candidate, whatever the diff counts are; the descriptor is rewritten only then, and
  only outside \<open>DRY_RUN\<close>.\<close>

lemma timestamp_decision:
  assumes "existsSync E (pathJoin d ''index.md'')"
    and "scanImagesForBundle E d (MAXDEPTH E) = Inr images" and "images \<noteq> []"
    and "files w (pathJoin d ''index.md'') = Some raw"
    and "valid (parseFrontmatter (FRONTMATTER_DELIM E) raw)"
  shows "let p = parseFrontmatter (FRONTMATTER_DELIM E) raw;
             candidate = formatLocalISO (localDate E (maxMtime images));
             update = (currentLastmod p = [] \<or> currentLastmod p < candidate);
             r = processBundle_v2 E d w
         in (\<not> update \<longrightarrow>
               fst r = None \<and> files (snd r) = files w \<and>
               updatedBundles (stats (snd r)) = updatedBundles (stats w) \<and>
               unchangedBundles (stats (snd r)) = unchangedBundles (stats w) + 1) \<and>
            (update \<longrightarrow>
               updatedBundles (stats (snd r)) = updatedBundles (stats w) + 1 \<and>
               unchangedBundles (stats (snd r)) = unchangedBundles (stats w) \<and>
               (DRY_RUN E \<longrightarrow> fst r = None \<and> files (snd r) = files w) \<and>
               (\<not> DRY_RUN E \<and> writable E (pathJoin d ''index.md'') \<longrightarrow>
                  fst r = None \<and>
                  files (snd r) = (files w)(pathJoin d ''index.md'' :=
                    Some (buildNewContent (FRONTMATTER_DELIM E) (fmLines p) (bodyLines p)
                            candidate))))"
  using assms
  by (simp add: processBundle_v2_def Let_def decideAndWrite_def isNewerISO_def
      cachePut_def incUnchanged_def incUpdated_def writeFile_def addDiff_def)


text \<open>
  Claim C4, at an input where the code differs from it. The bundle \<open>g/a\<close> has one image,
  last modified one second before 1970 (\<open>mtimeMs = -1000\<close>), and a valid descriptor
  whose \<open>lastmod\<close> is that instant, \<open>1969-12-31T23:59:59+00:00\<close>, in a process in UTC.
  The largest modification time of the images formats to the current value, a tie, so the
  claim has no update. The loop of the code starts from 0, its candidate is
  \<open>1970-01-01T00:00:00+00:00\<close>, and the descriptor is rewritten with it. For images whose
  largest modification time is not negative the candidate is the formatted maximum
  (\<open>maxMtime_Max\<close>), and the decision is the one of the claim (\<open>timestamp_decision\<close>).
\<close>

theorem candidate_negative_mtime:
  "maxMtime [(''g/a/x.jpg'', \<lparr>fingerprint = - 1000, size_bytes = 100\<rparr>)] = 0 \<and>
   formatLocalISO (newDate 0 (- 1000)) = ''1969-12-31T23:59:59+00:00'' \<and>
   formatLocalISO (newDate 0 0) = ''1970-01-01T00:00:00+00:00'' \<and>
   scanImagesForBundle (demoEnv False (Some [FileEntry ''x.jpg'']) (demoImages (- 1000 :: int) 2000))
     ''g/a'' 1 = Inr [(''g/a/x.jpg'', \<lparr>fingerprint = - 1000, size_bytes = 100\<rparr>)] \<and>
   currentLastmod (parseFrontmatter ''---''
     (join_nl [''---'', ''title: A'', ''lastmod: \"1969-12-31T23:59:59+00:00\"'', ''---'',
               ''Hello''])) = ''1969-12-31T23:59:59+00:00'' \<and>
   files (snd (processBundle_v2
                 (demoEnv False (Some [FileEntry ''x.jpg'']) (demoImages (- 1000 :: int) 2000)) ''g/a''
                 (start 2 (demoFiles (Some (join_nl [''---'', ''title: A'',
                    ''lastmod: \"1969-12-31T23:59:59+00:00\"'', ''---'', ''Hello'']))) Absent)))
     ''g/a/index.md''
   = Some (join_nl [''---'', ''title: A'', ''lastmod: \"1970-01-01T00:00:00+00:00\"'', ''---'',
                    ''Hello''])"
  by code_simp

theorem candidate_negative_mtime_witness:
  "maxMtime [(''g/a/x.jpg'', \<lparr>fingerprint = - 1000, size_bytes = 100\<rparr>)] = 0"
  using candidate_negative_mtime by blast

end
